theory Spec2Isabelle
  imports Main "HOL-Library.AList"
begin

section \<open>Strings of the host language\<close>

text \<open>
  A JavaScript string is modelled as a \<open>string\<close>: the list of its characters, a character
  beyond ASCII being the bytes of its UTF-8 encoding. The operations are the ones
  \<^verbatim>\<open>popup.js\<close> calls: \<^verbatim>\<open>startsWith\<close>, \<^verbatim>\<open>includes\<close>, the conversion of a number to
  a property key, and \<^verbatim>\<open>parseInt\<close>. A string is truthy iff it is not empty.
\<close>

definition startsWith :: "string \<Rightarrow> string \<Rightarrow> bool" where
  "startsWith s p = (take (length p) s = p)"

fun includes_str :: "string \<Rightarrow> string \<Rightarrow> bool" where
  "includes_str [] sub = (sub = [])"
| "includes_str (c # cs) sub = (startsWith (c # cs) sub \<or> includes_str cs sub)"

definition truthy :: "string \<Rightarrow> bool" where
  "truthy s = (s \<noteq> [])"

text \<open>
  \<^verbatim>\<open>originalDetails[tab.id] = ...\<close> turns the number \<^verbatim>\<open>tab.id\<close> into the property key
  \<^verbatim>\<open>String(tab.id)\<close>: its decimal digits, with a minus sign when it is negative.
\<close>

definition digit_char :: "nat \<Rightarrow> char" where
  "digit_char d = ''0123456789'' ! d"

fun digits :: "nat \<Rightarrow> string" where
  "digits n = (if n < 10 then [digit_char n] else digits (n div 10) @ [digit_char (n mod 10)])"

declare digits.simps [simp del]

definition String :: "int \<Rightarrow> string" where
  "String i = (if i < 0 then CHR ''-'' # digits (nat (- i)) else digits (nat i))"

text \<open>
  The white space that \<^verbatim>\<open>parseInt\<close> drops from the front of its argument is that of
  ECMAScript's \<^verbatim>\<open>StrWhiteSpaceChar\<close>, each character in its UTF-8 encoding: the ASCII
  characters TAB, LF, VT, FF, CR and SPACE, then U+00A0, U+1680, U+2000 to U+200A, U+2028,
  U+2029, U+202F, U+205F, U+3000 and U+FEFF. (U+200B, the zero-width space, is not one.)
\<close>

definition white_space :: "string list" where
  "white_space =
     map (\<lambda>c. [c]) [CHR 0x09, CHR 0x0A, CHR 0x0B, CHR 0x0C, CHR 0x0D, CHR 0x20] @
     [ [CHR 0xC2, CHR 0xA0], [CHR 0xE1, CHR 0x9A, CHR 0x80] ] @
     map (\<lambda>c. [CHR 0xE2, CHR 0x80, c])
       [CHR 0x80, CHR 0x81, CHR 0x82, CHR 0x83, CHR 0x84, CHR 0x85, CHR 0x86, CHR 0x87,
        CHR 0x88, CHR 0x89, CHR 0x8A, CHR 0xA8, CHR 0xA9, CHR 0xAF] @
     [ [CHR 0xE2, CHR 0x81, CHR 0x9F], [CHR 0xE3, CHR 0x80, CHR 0x80],
       [CHR 0xEF, CHR 0xBB, CHR 0xBF] ]"

text \<open>The length of the white-space character a string begins with; 0 when it begins with none.\<close>

definition white_space_length :: "string \<Rightarrow> nat" where
  "white_space_length s =
     (case find (startsWith s) white_space of None \<Rightarrow> 0 | Some w \<Rightarrow> length w)"

function trimStart :: "string \<Rightarrow> string" where
  "trimStart s =
     (if white_space_length s = 0 then s else trimStart (drop (white_space_length s) s))"
  by pat_completeness auto
termination
proof (relation "measure length")
  show "wf (measure length)" by simp
next
  fix s :: string
  assume n: "white_space_length s \<noteq> 0"
  have "s \<noteq> []"
  proof
    assume "s = []"
    then have "white_space_length s = 0"
      by (simp add: white_space_length_def white_space_def startsWith_def)
    with n show False by simp
  qed
  with n show "(drop (white_space_length s) s, s) \<in> measure length"
    by simp
qed

declare trimStart.simps [simp del]

text \<open>
  \<^verbatim>\<open>parseInt(s)\<close> with no radix: leading white space is dropped, then an optional sign, then
  an optional \<^verbatim>\<open>0x\<close> or \<^verbatim>\<open>0X\<close> (radix 16, otherwise radix 10); the value is that of the longest
  run of digits of the radix that follows, and \<^verbatim>\<open>NaN\<close> (here \<open>None\<close>) when that run is
  empty. Whether the result is \<^verbatim>\<open>NaN\<close> is exactly this. The value is given as the exact
  integer: JavaScript returns the double nearest to it, which is that integer when it is
  below \<open>2 ^ 53\<close> in absolute value; every tab identifier is, and a statement below that names
  the number read from any other key is restricted to that range.
\<close>

definition digit_val :: "char \<Rightarrow> nat option" where
  "digit_val c =
     (let n = (of_char c :: nat) in
      if 48 \<le> n \<and> n \<le> 57 then Some (n - 48)
      else if 97 \<le> n \<and> n \<le> 102 then Some (n - 87)
      else if 65 \<le> n \<and> n \<le> 70 then Some (n - 55)
      else None)"

definition radix_digit :: "nat \<Rightarrow> char \<Rightarrow> bool" where
  "radix_digit r c = (case digit_val c of None \<Rightarrow> False | Some d \<Rightarrow> d < r)"

fun digits_value :: "nat \<Rightarrow> nat \<Rightarrow> string \<Rightarrow> nat" where
  "digits_value r acc [] = acc"
| "digits_value r acc (c # cs) =
     (case digit_val c of None \<Rightarrow> acc | Some d \<Rightarrow> digits_value r (acc * r + d) cs)"

definition parse_digits :: "nat \<Rightarrow> string \<Rightarrow> nat option" where
  "parse_digits r s =
     (let run = takeWhile (radix_digit r) s in
      if run = [] then None else Some (digits_value r 0 run))"

definition parse_unsigned :: "string \<Rightarrow> nat option" where
  "parse_unsigned s =
     (if startsWith s ''0x'' \<or> startsWith s ''0X'' then parse_digits 16 (drop 2 s)
      else parse_digits 10 s)"

definition parseInt :: "string \<Rightarrow> int option" where
  "parseInt s =
     (let t = trimStart s in
      case t of
        [] \<Rightarrow> None
      | c # cs \<Rightarrow>
          if c = CHR ''-'' then map_option (\<lambda>n. - int n) (parse_unsigned cs)
          else if c = CHR ''+'' then map_option int (parse_unsigned cs)
          else map_option int (parse_unsigned t))"

section \<open>The page of a tab\<close>

text \<open>
  The injected functions of \<^verbatim>\<open>popup.js\<close> see of a page its title, its \<^verbatim>\<open>link\<close> elements
  (those of \<^verbatim>\<open>document.head\<close> first, then any further ones, in document order), the first
  \<^verbatim>\<open>meta[itemprop='image']\<close> element and the origin. The page is an HTML document, so it
  has a head and \<^verbatim>\<open>document.head.appendChild\<close> does not throw: the \<^verbatim>\<open>catch\<close> branches around
  it are never taken. \<open>favicon_ico_complete\<close> is what \<^verbatim>\<open>img.complete\<close> answers for the image
  just pointed at \<^verbatim>\<open>/favicon.ico\<close>; the page's environment decides it.
\<close>

record link =
  rel :: string
  href :: string
  link_type :: string

record document =
  doc_title :: string
  origin :: string
  head_links :: "link list"
  body_links :: "link list"
  meta_image :: "string option"
  favicon_ico_complete :: bool

record tab_details =
  title :: string
  faviconHref :: "string option"
  faviconRel :: string

text \<open>
  A value of \<^verbatim>\<open>domain_mappings.json\<close>, the argument of \<^verbatim>\<open>setSpecificDetails\<close>: a field
  that is absent is \<open>None\<close>.
\<close>

record profile =
  details_title :: "string option"
  details_favicon :: "string option"

text \<open>
  The selectors \<^verbatim>\<open>link[rel='icon']\<close> and \<^verbatim>\<open>link[rel*='icon']\<close>: in an HTML document the
  value of \<^verbatim>\<open>rel\<close> is compared without regard to ASCII case.
\<close>

definition ascii_lower :: "char \<Rightarrow> char" where
  "ascii_lower c =
     (let n = (of_char c :: nat) in if 65 \<le> n \<and> n \<le> 90 then char_of (n + 32) else c)"

definition rel_is :: "string \<Rightarrow> link \<Rightarrow> bool" where
  "rel_is v l = (map ascii_lower (rel l) = v)"

definition rel_has :: "string \<Rightarrow> link \<Rightarrow> bool" where
  "rel_has v l = includes_str (map ascii_lower (rel l)) v"

definition all_links :: "document \<Rightarrow> link list" where
  "all_links d = head_links d @ body_links d"

definition querySelector :: "(link \<Rightarrow> bool) \<Rightarrow> document \<Rightarrow> link option" where
  "querySelector sel d = find sel (all_links d)"

definition appendChild :: "link \<Rightarrow> document \<Rightarrow> document" where
  "appendChild l d = d\<lparr>head_links := head_links d @ [l]\<rparr>"

definition remove_links :: "(link \<Rightarrow> bool) \<Rightarrow> document \<Rightarrow> document" where
  "remove_links sel d =
     d\<lparr>head_links := filter (\<lambda>l. \<not> sel l) (head_links d),
       body_links := filter (\<lambda>l. \<not> sel l) (body_links d)\<rparr>"

definition ZWSP :: string where
  "ZWSP = [CHR 0xE2, CHR 0x80, CHR 0x8B]"

definition blankFavicon :: string where
  "blankFavicon = ''data:image/gif;base64,R0lGODlhAQABAIAAAAAAAP///yH5BAEAAAAALAAAAAABAAEAAAIBRAA7''"

definition getTabDetails :: "document \<Rightarrow> tab_details" where
  "getTabDetails d =
     (let iconLink =
            (case querySelector (rel_is ''icon'') d of
               Some l \<Rightarrow> Some l
             | None \<Rightarrow>
                 (case querySelector (rel_is ''shortcut icon'') d of
                    Some l \<Rightarrow> Some l
                  | None \<Rightarrow> querySelector (rel_has ''icon'') d))
      in case iconLink of
           None \<Rightarrow>
             if favicon_ico_complete d
             then \<lparr>title = doc_title d, faviconHref = Some (origin d @ ''/favicon.ico''),
                   faviconRel = ''icon''\<rparr>
             else (case meta_image d of
                     Some content \<Rightarrow>
                       \<lparr>title = doc_title d, faviconHref = Some content, faviconRel = ''icon''\<rparr>
                   | None \<Rightarrow>
                       \<lparr>title = doc_title d, faviconHref = None, faviconRel = ''icon''\<rparr>)
         | Some l \<Rightarrow>
             \<lparr>title = doc_title d, faviconHref = Some (href l), faviconRel = rel l\<rparr>)"

definition purge_link :: "link \<Rightarrow> link" where
  "purge_link l = (if rel_has ''icon'' l then l\<lparr>href := blankFavicon, rel := ''icon''\<rparr> else l)"

definition purgeTabDetails :: "document \<Rightarrow> document" where
  "purgeTabDetails d =
     (let faviconSet = list_ex (rel_has ''icon'') (all_links d);
          d1 = d\<lparr>doc_title := ZWSP,
                 head_links := map purge_link (head_links d),
                 body_links := map purge_link (body_links d)\<rparr>
      in if \<not> faviconSet
         then appendChild \<lparr>rel = ''icon'', href = blankFavicon, link_type = ''''\<rparr> d1
         else d1)"

text \<open>
  The cache bust of \<^verbatim>\<open>setSpecificDetails\<close> sets the new link's \<^verbatim>\<open>href\<close> to the empty string
  and back to the value read before; the model keeps the three assignments.
\<close>

definition setSpecificDetails :: "profile option \<Rightarrow> document \<Rightarrow> document" where
  "setSpecificDetails details d =
     (case details of
        None \<Rightarrow> d
      | Some p \<Rightarrow>
          (case (details_title p, details_favicon p) of
             (Some t, Some f) \<Rightarrow>
               if \<not> truthy t \<or> \<not> truthy f then d
               else
                 (let d1 = remove_links (rel_has ''icon'') (d\<lparr>doc_title := t\<rparr>);
                      link0 = \<lparr>rel = ''icon'', href = f, link_type = ''image/x-icon''\<rparr>;
                      originalHref = href link0;
                      link1 = link0\<lparr>href := ''''\<rparr>;
                      link2 = link1\<lparr>href := originalHref\<rparr>
                  in appendChild link2 d1)
           | _ \<Rightarrow> d))"

definition restoreTabDetails :: "tab_details \<Rightarrow> document \<Rightarrow> document" where
  "restoreTabDetails details d =
     (let d1 = remove_links (rel_has ''icon'') (d\<lparr>doc_title := title details\<rparr>);
          (d2, linkRestoredOrRemoved) =
            (case faviconHref details of
               Some h \<Rightarrow>
                 if truthy h
                 then (appendChild
                         \<lparr>rel = (if truthy (faviconRel details) then faviconRel details
                                 else ''icon''),
                          href = h, link_type = ''''\<rparr> d1, True)
                 else (d1, False)
             | None \<Rightarrow> (d1, False))
      in if \<not> linkRestoredOrRemoved
         then appendChild \<lparr>rel = ''icon'', href = blankFavicon, link_type = ''''\<rparr> d2
         else d2)"

section \<open>The browser: tabs, script injection, storage\<close>

text \<open>
  A tab as \<^verbatim>\<open>chrome.tabs.query\<close> reports it (\<^verbatim>\<open>id\<close> and \<^verbatim>\<open>url\<close> may be absent), with its
  page and with whether the browser lets a script into its top frame. The browser state is
  the list of open tabs and the value stored under the key \<^verbatim>\<open>originalTabDetails\<close> of
  \<^verbatim>\<open>chrome.storage.local\<close> (\<open>None\<close>: the key is absent). The stored object is the list of
  its properties, one per key, in the order in which \<^verbatim>\<open>for ... in\<close> visits them; a property
  is added or overwritten by \<open>AList.update\<close>, which puts a new key last. (JavaScript visits
  keys that are array indices in ascending order whatever the order of insertion, so the
  object that the save phase builds is visited by ascending tab identifier. The statements
  about such an object speak of its keys and of the value under a key, not of their order.)
\<close>

record tab =
  tab_id :: "int option"
  url :: "string option"
  page :: document
  injectable :: bool

type_synonym snapshot = "(string \<times> tab_details) list"

record browser =
  tabs :: "tab list"
  storage :: "snapshot option"

datatype script =
    GetTabDetails
  | PurgeTabDetails
  | SetSpecificDetails "profile option"
  | RestoreTabDetails tab_details

datatype inject_error = NoTabWithId | CannotAccess

text \<open>
  What an invocation does to the outside is recorded in order: every call of
  \<^verbatim>\<open>chrome.scripting.executeScript\<close>, every write and removal of the storage key, and every
  \<^verbatim>\<open>console.warn\<close> and \<^verbatim>\<open>console.error\<close> (the text before the logged object);
  \<^verbatim>\<open>console.log\<close> is left out.
\<close>

datatype event =
    ExecuteScript int script
  | StorageSet snapshot
  | StorageRemove
  | ConsoleWarn string
  | ConsoleError string

fun run_script :: "script \<Rightarrow> document \<Rightarrow> tab_details option \<times> document" where
  "run_script GetTabDetails d = (Some (getTabDetails d), d)"
| "run_script PurgeTabDetails d = (None, purgeTabDetails d)"
| "run_script (SetSpecificDetails details) d = (None, setSpecificDetails details d)"
| "run_script (RestoreTabDetails details) d = (None, restoreTabDetails details d)"

text \<open>
  \<^verbatim>\<open>executeScript({target: {tabId, frameIds: [0]}, func, args})\<close>: the promise rejects when no
  tab has the identifier or the tab cannot be scripted; otherwise the function runs on the
  tab's page and its result is returned. The injections of one phase touch one page each,
  so the model runs each to its end where it is dispatched.
\<close>

fun executeScript ::
  "int \<Rightarrow> script \<Rightarrow> tab list \<Rightarrow> (inject_error + tab_details option) \<times> tab list" where
  "executeScript tabId func [] = (Inl NoTabWithId, [])"
| "executeScript tabId func (t # ts) =
     (if tab_id t = Some tabId
      then (if injectable t
            then (case run_script func (page t) of
                    (result, d) \<Rightarrow> (Inr result, t\<lparr>page := d\<rparr> # ts))
            else (Inl CannotAccess, t # ts))
      else (case executeScript tabId func ts of (r, ts') \<Rightarrow> (r, t # ts')))"

text \<open>
  The test \<^verbatim>\<open>tab.id && tab.url && (tab.url.startsWith('http:') || tab.url.startsWith('https:'))\<close>
  of the three iterations over the tabs in \<^verbatim>\<open>manageTabs\<close>.
\<close>

definition eligible :: "tab \<Rightarrow> bool" where
  "eligible t =
     ((case tab_id t of None \<Rightarrow> False | Some i \<Rightarrow> i \<noteq> 0) \<and>
      (case url t of
         None \<Rightarrow> False
       | Some u \<Rightarrow> truthy u \<and> (startsWith u ''http:'' \<or> startsWith u ''https:'')))"

section \<open>Loading the mappings\<close>

text \<open>
  What \<^verbatim>\<open>fetch('data/domain_mappings.json')\<close> and \<^verbatim>\<open>response.json()\<close> give: the fetch may
  throw, the response has a status (\<^verbatim>\<open>response.ok\<close> is a status from 200 to 299), the body
  may fail to parse, and a parsed value is an object (the list of its properties), an
  array, \<^verbatim>\<open>null\<close>, or a number, string or boolean. A property's value that is falsy is
  \<open>None\<close>.
\<close>

datatype json =
    JObject "(string \<times> profile option) list"
  | JArray
  | JNull
  | JPrimitive

datatype body = InvalidJson | Json json

datatype fetched = NetworkError | Response nat body

definition loadDomainMappings :: "fetched \<Rightarrow> (string \<times> profile option) list \<times> event list" where
  "loadDomainMappings f =
     (case f of
        NetworkError \<Rightarrow> ([], [ConsoleError ''Error loading or parsing domain_mappings.json:''])
      | Response status b \<Rightarrow>
          if \<not> (200 \<le> status \<and> status \<le> 299)
          then ([], [ConsoleError ''Error loading or parsing domain_mappings.json:''])
          else (case b of
                  InvalidJson \<Rightarrow>
                    ([], [ConsoleError ''Error loading or parsing domain_mappings.json:''])
                | Json mappings \<Rightarrow>
                    (case mappings of
                       JObject m \<Rightarrow> (m, [])
                     | _ \<Rightarrow>
                        ([], [ConsoleError
                          ''Invalid format in domain_mappings.json. Expected an object.'']))))"

section \<open>The engine: \<^verbatim>\<open>manageTabs\<close>\<close>

definition has_saved_state :: "snapshot option \<Rightarrow> bool" where
  "has_saved_state existingSavedState =
     (case existingSavedState of None \<Rightarrow> False | Some obj \<Rightarrow> length (map fst obj) \<noteq> 0)"

text \<open>One turn of the save loop, on the open tabs, the object being filled and the trace.\<close>

definition save_tab ::
  "tab \<Rightarrow> tab list \<times> snapshot \<times> event list \<Rightarrow> tab list \<times> snapshot \<times> event list" where
  "save_tab t st =
     (case st of (live, originalDetails, tr) \<Rightarrow>
        (case tab_id t of
           None \<Rightarrow> st
         | Some i \<Rightarrow>
             if eligible t
             then (case executeScript i GetTabDetails live of
                     (Inr (Some result), live') \<Rightarrow>
                       (live', AList.update (String i) result originalDetails,
                        tr @ [ExecuteScript i GetTabDetails])
                   | (Inr None, live') \<Rightarrow>
                       (live', originalDetails,
                        tr @ [ExecuteScript i GetTabDetails,
                              ConsoleWarn (''Could not retrieve details for tab '' @ String i @
                                           '' during save state.'')])
                   | (Inl e, live') \<Rightarrow>
                       (live', originalDetails,
                        tr @ [ExecuteScript i GetTabDetails,
                              ConsoleError (''Error saving state for tab '' @ String i @ '':'')]))
             else st))"

definition save_phase :: "browser \<Rightarrow> browser \<times> event list" where
  "save_phase b =
     (if \<not> has_saved_state (storage b)
      then (case fold save_tab (tabs b) (tabs b, [], []) of
              (live, originalDetails, tr) \<Rightarrow>
                (b\<lparr>tabs := live, storage := Some originalDetails\<rparr>,
                 tr @ [StorageSet originalDetails]))
      else (b, []))"

definition purge_tab :: "tab \<Rightarrow> tab list \<times> event list \<Rightarrow> tab list \<times> event list" where
  "purge_tab t st =
     (case st of (live, tr) \<Rightarrow>
        (case tab_id t of
           None \<Rightarrow> st
         | Some i \<Rightarrow>
             if eligible t
             then (case executeScript i PurgeTabDetails live of
                     (Inr result, live') \<Rightarrow> (live', tr @ [ExecuteScript i PurgeTabDetails])
                   | (Inl e, live') \<Rightarrow>
                       (live',
                        tr @ [ExecuteScript i PurgeTabDetails,
                              ConsoleError (''Error purging tab '' @ String i @ '':'')]))
             else st))"

text \<open>
  \<^verbatim>\<open>Math.floor(Math.random() * mappingKeys.length)\<close> is some index below the number of keys:
  the \<open>k\<close>-th draw of an invocation is the environment's number \<open>rnd k\<close>, reduced modulo
  that number.
\<close>

definition apply_random_tab ::
  "(string \<times> profile option) list \<Rightarrow> (nat \<Rightarrow> nat) \<Rightarrow> tab \<Rightarrow>
   tab list \<times> nat \<times> event list \<Rightarrow> tab list \<times> nat \<times> event list" where
  "apply_random_tab domainMappings rnd t st =
     (case st of (live, k, tr) \<Rightarrow>
        (case tab_id t of
           None \<Rightarrow> st
         | Some i \<Rightarrow>
             if eligible t
             then (let mappingKeys = map fst domainMappings;
                       randomKeyIndex = rnd k mod length mappingKeys;
                       randomDomainKey = mappingKeys ! randomKeyIndex;
                       randomDetails =
                         (case map_of domainMappings randomDomainKey of
                            None \<Rightarrow> None
                          | Some v \<Rightarrow> v)
                   in case executeScript i (SetSpecificDetails randomDetails) live of
                        (Inr result, live') \<Rightarrow>
                          (live', Suc k, tr @ [ExecuteScript i (SetSpecificDetails randomDetails)])
                      | (Inl e, live') \<Rightarrow>
                          (live', Suc k,
                           tr @ [ExecuteScript i (SetSpecificDetails randomDetails),
                                 ConsoleError (''Error applying random details to tab '' @
                                               String i @ '':'')]))
             else st))"

definition no_mappings_message :: string where
  "no_mappings_message =
     ''Professional mode failed: No domain mappings loaded from data/domain_mappings.json. Cannot select random details.''"

text \<open>
  \<^verbatim>\<open>manageTabs(mode)\<close>, given what the fetch of the mapping file answers, the random draws,
  and what happens to the open tabs between the save phase and the second
  \<^verbatim>\<open>chrome.tabs.query\<close>: tabs may be closed, opened or navigated, and may become or cease to be
  open to scripts, so that the second query returns \<open>interim\<close> of the tabs the save phase
  left (\<open>\<lambda>ts. ts\<close> when nothing happens). It returns the browser state it leaves and the
  trace of what it did. The calls of \<^verbatim>\<open>chrome.storage.local\<close> and \<^verbatim>\<open>chrome.tabs.query\<close> are
  taken to succeed, and every other promise of the function has a \<^verbatim>\<open>catch\<close>: the function
  has no failing outcome. Within a phase the open tabs change by the injections only.
\<close>

definition manageTabs ::
  "string \<Rightarrow> fetched \<Rightarrow> (nat \<Rightarrow> nat) \<Rightarrow> (tab list \<Rightarrow> tab list) \<Rightarrow> browser \<Rightarrow>
   browser \<times> event list" where
  "manageTabs mode file rnd interim b =
     (case save_phase b of (b1, tr1) \<Rightarrow>
        (let b2 = b1\<lparr>tabs := interim (tabs b1)\<rparr>;
             tabsToModify = tabs b2 in
         if mode = ''purgeAll''
         then (case fold purge_tab tabsToModify (tabs b2, []) of
                 (live, tr2) \<Rightarrow> (b2\<lparr>tabs := live\<rparr>, tr1 @ tr2))
         else if mode = ''professional''
         then (case loadDomainMappings file of
                 (domainMappings, tr2) \<Rightarrow>
                   (let mappingKeys = map fst domainMappings in
                    if length mappingKeys = 0
                    then (b2, tr1 @ tr2 @
                            [ConsoleError no_mappings_message])
                    else (case fold (apply_random_tab domainMappings rnd) tabsToModify
                                 (tabs b2, 0, []) of
                            (live, k, tr3) \<Rightarrow> (b2\<lparr>tabs := live\<rparr>, tr1 @ tr2 @ tr3))))
         else (b2, tr1)))"

section \<open>Undo: \<^verbatim>\<open>undoChanges\<close>\<close>

definition restore_entry ::
  "string \<times> tab_details \<Rightarrow> tab list \<times> event list \<Rightarrow> tab list \<times> event list" where
  "restore_entry entry st =
     (case entry of (tabIdStr, details) \<Rightarrow>
      case st of (live, tr) \<Rightarrow>
        (case parseInt tabIdStr of
           None \<Rightarrow>
             (live,
              tr @ [ConsoleWarn (''Invalid tabId found in storage: '' @ tabIdStr @
                                 '', skipping restore.'')])
         | Some tabId \<Rightarrow>
             (case executeScript tabId (RestoreTabDetails details) live of
                (Inr result, live') \<Rightarrow>
                  (live', tr @ [ExecuteScript tabId (RestoreTabDetails details)])
              | (Inl NoTabWithId, live') \<Rightarrow>
                  (live',
                   tr @ [ExecuteScript tabId (RestoreTabDetails details),
                         ConsoleWarn (''Tab '' @ String tabId @
                                      '' not found or invalid during restore, skipping.'')])
              | (Inl CannotAccess, live') \<Rightarrow>
                  (live',
                   tr @ [ExecuteScript tabId (RestoreTabDetails details),
                         ConsoleError (''Error restoring tab '' @ String tabId @ '':'')]))))"

definition undoChanges :: "browser \<Rightarrow> browser \<times> event list" where
  "undoChanges b =
     (if \<not> has_saved_state (storage b) then (b, [])
      else (case storage b of
              None \<Rightarrow> (b, [])
            | Some originalTabDetails \<Rightarrow>
                (case fold restore_entry originalTabDetails (tabs b, []) of
                   (live, tr) \<Rightarrow>
                     (b\<lparr>tabs := live, storage := None\<rparr>, tr @ [StorageRemove]))))"

section \<open>Observations on states and traces\<close>

text \<open>The script injections of a trace, in order, and the tabs they were aimed at.\<close>

fun injections :: "event list \<Rightarrow> (int \<times> script) list" where
  "injections [] = []"
| "injections (ExecuteScript i s # es) = (i, s) # injections es"
| "injections (e # es) = injections es"

definition targets :: "event list \<Rightarrow> int list" where
  "targets tr = map fst (injections tr)"

text \<open>The values written to the storage key by a trace, in order.\<close>

fun snapshot_writes :: "event list \<Rightarrow> snapshot list" where
  "snapshot_writes [] = []"
| "snapshot_writes (StorageSet s # es) = s # snapshot_writes es"
| "snapshot_writes (e # es) = snapshot_writes es"

text \<open>The two injected functions that disguise a page.\<close>

fun is_write :: "script \<Rightarrow> bool" where
  "is_write PurgeTabDetails = True"
| "is_write (SetSpecificDetails details) = True"
| "is_write GetTabDetails = False"
| "is_write (RestoreTabDetails details) = False"

text \<open>The tab an identifier denotes (the one \<open>executeScript\<close> reaches), and its page.\<close>

fun lookup_tab :: "int \<Rightarrow> tab list \<Rightarrow> tab option" where
  "lookup_tab i [] = None"
| "lookup_tab i (t # ts) = (if tab_id t = Some i then Some t else lookup_tab i ts)"

definition page_of :: "int \<Rightarrow> tab list \<Rightarrow> document option" where
  "page_of i ts = map_option page (lookup_tab i ts)"

text \<open>Tab identifiers are unique among the open tabs.\<close>

fun tab_ids :: "tab list \<Rightarrow> int list" where
  "tab_ids [] = []"
| "tab_ids (t # ts) = (case tab_id t of None \<Rightarrow> tab_ids ts | Some i \<Rightarrow> i # tab_ids ts)"

definition distinct_ids :: "tab list \<Rightarrow> bool" where
  "distinct_ids ts = distinct (tab_ids ts)"

text \<open>
  The scheme of a URL, as the specification speaks of it: the characters before the first
  colon.
\<close>

definition url_scheme :: "string \<Rightarrow> string" where
  "url_scheme u = takeWhile (\<lambda>c. c \<noteq> CHR '':'') u"

text \<open>The link that \<^verbatim>\<open>purgeTabDetails\<close> creates, and an icon link with a given relation and address.\<close>

definition blank_link :: link where
  "blank_link = \<lparr>rel = ''icon'', href = blankFavicon, link_type = ''''\<rparr>"

definition icon_link :: "string \<Rightarrow> string \<Rightarrow> link" where
  "icon_link r h = \<lparr>rel = r, href = h, link_type = ''''\<rparr>"

section \<open>Example states\<close>

definition page_plain :: document where
  "page_plain =
     \<lparr>doc_title = ''Inbox'', origin = ''https://mail.example'', head_links = [],
      body_links = [], meta_image = None, favicon_ico_complete = False\<rparr>"

definition page_icon :: document where
  "page_icon =
     \<lparr>doc_title = ''News'', origin = ''http://news.example'',
      head_links = [\<lparr>rel = ''stylesheet'', href = ''http://news.example/s.css'', link_type = ''text/css''\<rparr>,
                    \<lparr>rel = ''shortcut icon'', href = ''http://news.example/f.png'', link_type = ''''\<rparr>],
      body_links = [], meta_image = None, favicon_ico_complete = False\<rparr>"


definition tab_news :: tab where
  "tab_news = \<lparr>tab_id = Some 7, url = Some ''http://news.example/today'', page = page_icon,
               injectable = True\<rparr>"

definition tab_mail :: tab where
  "tab_mail = \<lparr>tab_id = Some 12, url = Some ''https://mail.example/'', page = page_plain,
               injectable = True\<rparr>"

definition tab_settings :: tab where
  "tab_settings = \<lparr>tab_id = Some 3, url = Some ''chrome://settings/'', page = page_plain,
                   injectable = False\<rparr>"


definition browser_fresh :: browser where
  "browser_fresh = \<lparr>tabs = [tab_settings, tab_news, tab_mail], storage = None\<rparr>"

definition browser_internal :: browser where
  "browser_internal = \<lparr>tabs = [tab_settings], storage = None\<rparr>"

definition details_news :: tab_details where
  "details_news = \<lparr>title = ''News'', faviconHref = Some ''http://news.example/f.png'',
                   faviconRel = ''shortcut icon''\<rparr>"

definition docs_profile :: profile where
  "docs_profile = \<lparr>details_title = Some ''Docs'', details_favicon = Some ''https://docs.example/d.ico''\<rparr>"

definition mappings_ok :: fetched where
  "mappings_ok = Response 200 (Json (JObject [(''docs.example'', Some docs_profile)]))"

definition browser_stale :: browser where
  "browser_stale =
     \<lparr>tabs = [tab_settings],
      storage = Some [(''3'', details_news), (''44'', details_news)]\<rparr>"

section \<open>Notions used in the statements\<close>


text \<open>The identifiers of the tabs of a list that pass that test, in order.\<close>

fun eligible_ids :: "tab list \<Rightarrow> int list" where
  "eligible_ids [] = []"
| "eligible_ids (t # ts) =
     (case tab_id t of
        None \<Rightarrow> eligible_ids ts
      | Some i \<Rightarrow> if eligible t then i # eligible_ids ts else eligible_ids ts)"

text \<open>What reading the tab an identifier denotes gives, when it can be read.\<close>

definition captured :: "int \<Rightarrow> tab list \<Rightarrow> tab_details option" where
  "captured i ts =
     (case lookup_tab i ts of
        None \<Rightarrow> None
      | Some t \<Rightarrow> if injectable t then Some (getTabDetails (page t)) else None)"

definition browser_new_tab :: browser where
  "browser_new_tab =
     (fst (manageTabs ''purgeAll'' mappings_ok (\<lambda>k. 0) (\<lambda>ts. ts) browser_internal))
       \<lparr>tabs := [tab_settings, tab_news]\<rparr>"

definition tab_notes :: tab where
  "tab_notes = \<lparr>tab_id = Some 7, url = Some ''file:///home/me/notes.html'', page = page_plain,
                injectable = True\<rparr>"

definition browser_navigated :: browser where
  "browser_navigated =
     (fst (manageTabs ''purgeAll'' mappings_ok (\<lambda>k. 0) (\<lambda>ts. ts) browser_fresh))
       \<lparr>tabs := [tab_settings, tab_notes]\<rparr>"





section \<open>Traces\<close>

lemma injections_append: "injections (xs @ ys) = injections xs @ injections ys"
  by (induction xs rule: injections.induct) simp_all

lemma snapshot_writes_append:
  "snapshot_writes (xs @ ys) = snapshot_writes xs @ snapshot_writes ys"
  by (induction xs rule: snapshot_writes.induct) simp_all

lemma has_saved_state_iff:
  "has_saved_state s \<longleftrightarrow> (\<exists>obj. s = Some obj \<and> obj \<noteq> [])"
  by (cases s) (simp_all add: has_saved_state_def)

section \<open>Numbers as property keys\<close>

lemma digit_char_val: "d < 10 \<Longrightarrow> digit_val (digit_char d) = Some d"
proof -
  assume "d < 10"
  then have "d \<in> {0, 1, 2, 3, 4, 5, 6, 7, 8, 9}" by auto
  then show ?thesis
    by (auto simp: digit_char_def digit_val_def)
qed

lemma digit_char_radix: "d < 10 \<Longrightarrow> radix_digit 10 (digit_char d)"
  by (simp add: radix_digit_def digit_char_val)

lemma digit_val_not: "digit_val (CHR ''x'') = None" "digit_val (CHR ''X'') = None"
  "digit_val (CHR ''-'') = None" "digit_val (CHR ''+'') = None"
  by (simp_all add: digit_val_def)

lemma find_holds: "find P xs = Some x \<Longrightarrow> P x"
  by (induction xs) (auto split: if_splits)

lemma find_member: "find P xs = Some x \<Longrightarrow> x \<in> set xs"
  by (induction xs) (auto split: if_splits)

text \<open>No white-space character begins with the byte of a digit or of a sign.\<close>

lemma white_space_first:
  "list_all (\<lambda>w. case w of [] \<Rightarrow> False
               | c # cs \<Rightarrow> digit_val c = None \<and> c \<noteq> CHR ''-'' \<and> c \<noteq> CHR ''+'')
     white_space"
  by code_simp

text \<open>A string that begins with a digit or a sign begins with no white space.\<close>

lemma no_white_space:
  assumes "digit_val c \<noteq> None \<or> c = CHR ''-'' \<or> c = CHR ''+''"
  shows "white_space_length (c # cs) = 0"
proof (cases "find (startsWith (c # cs)) white_space")
  case None
  then show ?thesis by (simp add: white_space_length_def)
next
  case (Some w)
  then have s: "startsWith (c # cs) w" and m: "w \<in> set white_space"
    by (auto dest: find_holds find_member)
  from white_space_first m
  have "case w of [] \<Rightarrow> False
        | c # cs \<Rightarrow> digit_val c = None \<and> c \<noteq> CHR ''-'' \<and> c \<noteq> CHR ''+''"
    unfolding list_all_iff by blast
  then obtain c' cs' where w: "w = c' # cs'"
    and f: "digit_val c' = None \<and> c' \<noteq> CHR ''-'' \<and> c' \<noteq> CHR ''+''"
    by (cases w) auto
  from s w have "c = c'" by (simp add: startsWith_def)
  with f assms show ?thesis by simp
qed

lemma trimStart_none: "white_space_length s = 0 \<Longrightarrow> trimStart s = s"
  by (subst trimStart.simps) simp

lemma set_trimStart: "set (trimStart s) \<subseteq> set s"
proof (induction s rule: trimStart.induct)
  case (1 s)
  show ?case
  proof (cases "white_space_length s = 0")
    case True
    then show ?thesis by (simp add: trimStart_none)
  next
    case False
    then have "trimStart s = trimStart (drop (white_space_length s) s)"
      by (subst trimStart.simps) simp
    moreover have "set (drop (white_space_length s) s) \<subseteq> set s"
      by (rule set_drop_subset)
    ultimately show ?thesis using "1.IH" [OF False] by auto
  qed
qed

lemma digits_all: "c \<in> set (digits n) \<Longrightarrow> radix_digit 10 c"
proof (induction n arbitrary: c rule: digits.induct)
  case (1 n)
  show ?case
  proof (cases "n < 10")
    case True
    then have "digits n = [digit_char n]"
      by (subst digits.simps) simp
    with True "1.prems" show ?thesis
      by (simp add: digit_char_radix)
  next
    case False
    with "1.prems" have "c \<in> set (digits (n div 10)) \<or> c = digit_char (n mod 10)"
      by (subst (asm) digits.simps) auto
    with False "1.IH" show ?thesis
      by (auto simp: digit_char_radix)
  qed
qed

lemma digits_nonempty: "digits n \<noteq> []"
  by (subst digits.simps) simp

lemma digits_value_append:
  "digits_value r acc (xs @ [c]) =
     (if list_all (\<lambda>x. digit_val x \<noteq> None) xs
      then (case digit_val c of None \<Rightarrow> digits_value r acc xs
            | Some d \<Rightarrow> digits_value r acc xs * r + d)
      else digits_value r acc xs)"
  by (induction xs arbitrary: acc) (auto split: option.splits)

lemma digits_valid: "list_all (\<lambda>x. digit_val x \<noteq> None) (digits n)"
  unfolding list_all_iff
proof
  fix x assume "x \<in> set (digits n)"
  then have "radix_digit 10 x" by (rule digits_all)
  then show "digit_val x \<noteq> None"
    by (cases "digit_val x") (simp_all add: radix_digit_def)
qed

lemma digits_value_digits: "digits_value 10 0 (digits n) = n"
proof (induction n rule: digits.induct)
  case (1 n)
  show ?case
  proof (cases "n < 10")
    case True
    then show ?thesis by (subst digits.simps) (simp add: digit_char_val)
  next
    case False
    then have "digits n = digits (n div 10) @ [digit_char (n mod 10)]"
      by (subst digits.simps) simp
    with False "1.IH" digits_valid [of "n div 10"] show ?thesis
      by (simp add: digits_value_append digit_char_val)
  qed
qed

lemma takeWhile_digits: "takeWhile (radix_digit 10) (digits n) = digits n"
  using digits_all by (simp add: takeWhile_eq_all_conv)

lemma parse_digits_digits: "parse_digits 10 (digits n) = Some n"
  by (simp add: parse_digits_def takeWhile_digits digits_nonempty digits_value_digits)

lemma startsWith_set: "startsWith s p \<Longrightarrow> set p \<subseteq> set s"
  unfolding startsWith_def by (metis set_take_subset)

lemma digits_no_hex: "\<not> startsWith (digits n) ''0x''" "\<not> startsWith (digits n) ''0X''"
proof -
  have "radix_digit 10 (CHR ''x'') = False" "radix_digit 10 (CHR ''X'') = False"
    by (simp_all add: radix_digit_def digit_val_not)
  then have "CHR ''x'' \<notin> set (digits n)" "CHR ''X'' \<notin> set (digits n)"
    using digits_all by blast+
  then show "\<not> startsWith (digits n) ''0x''" "\<not> startsWith (digits n) ''0X''"
    using startsWith_set by fastforce+
qed

lemma parse_unsigned_digits: "parse_unsigned (digits n) = Some n"
  by (simp add: parse_unsigned_def digits_no_hex parse_digits_digits)

lemma digits_hd: "\<exists>c cs. digits n = c # cs \<and> radix_digit 10 c"
  using digits_all [of _ n] digits_nonempty [of n] by (cases "digits n") auto

lemma radix_not_special:
  "radix_digit 10 c \<Longrightarrow> digit_val c \<noteq> None \<and> c \<noteq> CHR ''-'' \<and> c \<noteq> CHR ''+''"
  using digit_val_not by (cases "digit_val c") (auto simp: radix_digit_def)

lemma parseInt_digits: "parseInt (digits n) = Some (int n)"
proof -
  obtain c cs where d: "digits n = c # cs" and r: "radix_digit 10 c"
    using digits_hd by blast
  note s = radix_not_special [OF r]
  have t: "trimStart (c # cs) = c # cs"
    using s by (intro trimStart_none no_white_space) simp
  from s d parse_unsigned_digits [of n] show ?thesis
    unfolding parseInt_def Let_def d t by simp
qed

lemma parseInt_String: "parseInt (String i) = Some i"
proof (cases "i < 0")
  case True
  have t: "trimStart (CHR ''-'' # digits (nat (- i))) = CHR ''-'' # digits (nat (- i))"
    by (intro trimStart_none no_white_space) simp
  from True show ?thesis
    unfolding parseInt_def Let_def String_def
    by (simp add: t parse_unsigned_digits)
next
  case False
  then show ?thesis by (simp add: String_def parseInt_digits)
qed

lemma String_inj: "String i = String j \<Longrightarrow> i = j"
  by (metis parseInt_String option.inject)

section \<open>Script injection\<close>

lemma executeScript_get: "snd (executeScript i GetTabDetails ts) = ts"
  by (induction ts) (auto split: prod.splits)

lemma executeScript_result:
  "fst (executeScript i s ts) =
     (case lookup_tab i ts of
        None \<Rightarrow> Inl NoTabWithId
      | Some t \<Rightarrow> if injectable t then Inr (fst (run_script s (page t))) else Inl CannotAccess)"
  by (induction ts) (auto split: prod.splits)




section \<open>The save phase\<close>

lemma executeScript_get_eq:
  "executeScript i GetTabDetails live =
     ((case captured i live of
         None \<Rightarrow> (case lookup_tab i live of None \<Rightarrow> Inl NoTabWithId | Some t \<Rightarrow> Inl CannotAccess)
       | Some r \<Rightarrow> Inr (Some r)), live)"
proof -
  have "executeScript i GetTabDetails live =
      (fst (executeScript i GetTabDetails live), snd (executeScript i GetTabDetails live))"
    by simp
  then show ?thesis
    unfolding executeScript_get executeScript_result
    by (simp add: captured_def split: option.splits)
qed

lemma save_tab_eq:
  "save_tab t (live, snap, tr) =
     (case tab_id t of
        None \<Rightarrow> (live, snap, tr)
      | Some i \<Rightarrow>
          if eligible t
          then (case captured i live of
                  None \<Rightarrow>
                    (live, snap,
                     tr @ [ExecuteScript i GetTabDetails,
                           ConsoleError (''Error saving state for tab '' @ String i @ '':'')])
                | Some r \<Rightarrow>
                    (live, AList.update (String i) r snap,
                     tr @ [ExecuteScript i GetTabDetails]))
          else (live, snap, tr))"
  by (simp add: save_tab_def executeScript_get_eq split: option.splits)

lemma fold_save_live: "fst (fold save_tab xs (live, snap, tr)) = live"
  by (induction xs arbitrary: snap tr) (simp_all add: save_tab_eq split: option.splits)

lemma fold_save_injections:
  "injections (snd (snd (fold save_tab xs (live, snap, tr)))) =
     injections tr @ map (\<lambda>i. (i, GetTabDetails)) (eligible_ids xs)"
  by (induction xs arbitrary: snap tr)
     (simp_all add: save_tab_eq injections_append split: option.splits)

lemma fold_save_writes:
  "snapshot_writes (snd (snd (fold save_tab xs (live, snap, tr)))) = snapshot_writes tr"
  by (induction xs arbitrary: snap tr)
     (simp_all add: save_tab_eq snapshot_writes_append split: option.splits)

lemma fold_save_distinct:
  "distinct (map fst snap) \<Longrightarrow>
   distinct (map fst (fst (snd (fold save_tab xs (live, snap, tr)))))"
  by (induction xs arbitrary: snap tr)
     (simp_all add: save_tab_eq distinct_update split: option.splits)

lemma save_tab_cases:
  obtains (skip) "save_tab t (live, snap, tr) = (live, snap, tr)"
      and "eligible_ids (t # xs) = eligible_ids xs"
  | (fail) i tr' where "save_tab t (live, snap, tr) = (live, snap, tr')"
      and "eligible_ids (t # xs) = i # eligible_ids xs" and "captured i live = None"
  | (ok) i r tr' where "save_tab t (live, snap, tr) = (live, AList.update (String i) r snap, tr')"
      and "eligible_ids (t # xs) = i # eligible_ids xs" and "captured i live = Some r"
proof (cases "tab_id t")
  case None
  then show ?thesis using skip by (simp add: save_tab_eq)
next
  case (Some i)
  show ?thesis
  proof (cases "eligible t")
    case False
    with Some show ?thesis using skip by (simp add: save_tab_eq)
  next
    case True
    show ?thesis
    proof (cases "captured i live")
      case None
      with Some True show ?thesis using fail [of _ i] by (simp add: save_tab_eq)
    next
      case (Some r)
      with \<open>tab_id t = Some i\<close> True show ?thesis using ok [of i r] by (simp add: save_tab_eq)
    qed
  qed
qed

lemma fold_save_keys:
  "fst ` set (fst (snd (fold save_tab xs (live, snap, tr)))) =
     fst ` set snap \<union> String ` {i \<in> set (eligible_ids xs). captured i live \<noteq> None}"
proof (induction xs arbitrary: snap tr)
  case Nil
  then show ?case by simp
next
  case (Cons t xs)
  show ?case
  proof (cases rule: save_tab_cases [of t live snap tr xs])
    case skip
    then show ?thesis by (simp add: Cons.IH)
  next
    case (fail i tr')
    then have "{j \<in> set (eligible_ids (t # xs)). captured j live \<noteq> None} =
               {j \<in> set (eligible_ids xs). captured j live \<noteq> None}"
      by auto
    with fail show ?thesis by (simp add: Cons.IH)
  next
    case (ok i r tr')
    then have "{j \<in> set (eligible_ids (t # xs)). captured j live \<noteq> None} =
               insert i {j \<in> set (eligible_ids xs). captured j live \<noteq> None}"
      by auto
    with ok show ?thesis by (simp add: Cons.IH dom_update)
  qed
qed

lemma fold_save_lookup:
  "map_of (fst (snd (fold save_tab xs (live, snap, tr)))) (String i) =
     (if i \<in> set (eligible_ids xs) \<and> captured i live \<noteq> None then captured i live
      else map_of snap (String i))"
proof (induction xs arbitrary: snap tr)
  case Nil
  then show ?case by simp
next
  case (Cons t xs)
  show ?case
  proof (cases rule: save_tab_cases [of t live snap tr xs])
    case skip
    then show ?thesis by (simp add: Cons.IH)
  next
    case (fail j tr')
    then show ?thesis by (auto simp: Cons.IH)
  next
    case (ok j r tr')
    then show ?thesis by (auto simp: Cons.IH update_conv' dest: String_inj)
  qed
qed

lemma save_phase_skip: "has_saved_state (storage b) \<Longrightarrow> save_phase b = (b, [])"
  by (simp add: save_phase_def)

lemma save_phase_run:
  assumes "\<not> has_saved_state (storage b)"
  obtains snap tr where "save_phase b = (b\<lparr>storage := Some snap\<rparr>, tr @ [StorageSet snap])"
    and "fold save_tab (tabs b) (tabs b, [], []) = (tabs b, snap, tr)"
proof -
  obtain live snap tr where f: "fold save_tab (tabs b) (tabs b, [], []) = (live, snap, tr)"
    by (cases "fold save_tab (tabs b) (tabs b, [], [])")
  with fold_save_live [of "tabs b" "tabs b" "[]" "[]"] have l: "live = tabs b" by simp
  with assms f have "save_phase b = (b\<lparr>storage := Some snap\<rparr>, tr @ [StorageSet snap])"
    by (simp add: save_phase_def)
  with f l that show ?thesis by simp
qed

lemma save_phase_tabs: "tabs (fst (save_phase b)) = tabs b"
proof (cases "has_saved_state (storage b)")
  case True
  then show ?thesis by (simp add: save_phase_skip)
next
  case False
  then show ?thesis by (rule save_phase_run) simp
qed

lemma save_phase_injections:
  "injections (snd (save_phase b)) =
     (if has_saved_state (storage b) then []
      else map (\<lambda>i. (i, GetTabDetails)) (eligible_ids (tabs b)))"
proof (cases "has_saved_state (storage b)")
  case True
  then show ?thesis by (simp add: save_phase_skip)
next
  case False
  from False show ?thesis
  proof (rule save_phase_run)
    fix snap tr
    assume s: "save_phase b = (b\<lparr>storage := Some snap\<rparr>, tr @ [StorageSet snap])"
      and f: "fold save_tab (tabs b) (tabs b, [], []) = (tabs b, snap, tr)"
    from fold_save_injections [of "tabs b" "tabs b" "[]" "[]"] f
    have "injections tr = map (\<lambda>i. (i, GetTabDetails)) (eligible_ids (tabs b))" by simp
    with s False show ?thesis by (simp add: injections_append)
  qed
qed

lemma save_phase_writes:
  "snapshot_writes (snd (save_phase b)) =
     (if has_saved_state (storage b) then []
      else (case storage (fst (save_phase b)) of None \<Rightarrow> [] | Some snap \<Rightarrow> [snap]))"
proof (cases "has_saved_state (storage b)")
  case True
  then show ?thesis by (simp add: save_phase_skip)
next
  case False
  from False show ?thesis
  proof (rule save_phase_run)
    fix snap tr
    assume s: "save_phase b = (b\<lparr>storage := Some snap\<rparr>, tr @ [StorageSet snap])"
      and f: "fold save_tab (tabs b) (tabs b, [], []) = (tabs b, snap, tr)"
    from fold_save_writes [of "tabs b" "tabs b" "[]" "[]"] f
    have "snapshot_writes tr = []" by simp
    with s False show ?thesis by (simp add: snapshot_writes_append)
  qed
qed

lemma save_phase_storage:
  assumes "\<not> has_saved_state (storage b)"
  shows "\<exists>snap. storage (fst (save_phase b)) = Some snap \<and> distinct (map fst snap) \<and>
           fst ` set snap =
             String ` {i \<in> set (eligible_ids (tabs b)). captured i (tabs b) \<noteq> None} \<and>
           (\<forall>i \<in> set (eligible_ids (tabs b)). map_of snap (String i) = captured i (tabs b))"
proof -
  from assms show ?thesis
  proof (rule save_phase_run)
    fix snap tr
    assume s: "save_phase b = (b\<lparr>storage := Some snap\<rparr>, tr @ [StorageSet snap])"
      and f: "fold save_tab (tabs b) (tabs b, [], []) = (tabs b, snap, tr)"
    have 1: "storage (fst (save_phase b)) = Some snap" using s by simp
    have 2: "distinct (map fst snap)"
      using fold_save_distinct [of "[]" "tabs b" "tabs b" "[]"] f by simp
    have 3: "fst ` set snap =
        String ` {i \<in> set (eligible_ids (tabs b)). captured i (tabs b) \<noteq> None}"
      using fold_save_keys [of "tabs b" "tabs b" "[]" "[]"] f by simp
    have 4: "map_of snap (String i) = captured i (tabs b)"
      if "i \<in> set (eligible_ids (tabs b))" for i
      using fold_save_lookup [of "tabs b" "tabs b" "[]" "[]" i] f that
      by (cases "captured i (tabs b)") simp_all
    from 1 2 3 4 show ?thesis by blast
  qed
qed

lemma manageTabs_other:
  assumes "mode \<noteq> ''purgeAll''" and "mode \<noteq> ''professional''"
  shows "manageTabs mode file rnd interim b =
           ((fst (save_phase b))\<lparr>tabs := interim (tabs b)\<rparr>, snd (save_phase b))"
proof -
  obtain b1 tr1 where s: "save_phase b = (b1, tr1)" by (cases "save_phase b")
  then have "tabs b1 = tabs b" using save_phase_tabs [of b] by simp
  with assms s show ?thesis by (simp add: manageTabs_def)
qed

lemma loadDomainMappings_trace:
  "injections (snd (loadDomainMappings file)) = [] \<and>
   snapshot_writes (snd (loadDomainMappings file)) = []"
  by (simp add: loadDomainMappings_def split: fetched.splits body.splits json.splits)

lemma manageTabs_professional_empty:
  assumes "fst (loadDomainMappings file) = []"
  shows "manageTabs ''professional'' file rnd interim b =
           ((fst (save_phase b))\<lparr>tabs := interim (tabs b)\<rparr>,
            snd (save_phase b) @ snd (loadDomainMappings file) @ [ConsoleError no_mappings_message])"
proof -
  obtain m tr2 where l: "loadDomainMappings file = (m, tr2)"
    by (cases "loadDomainMappings file")
  with assms have m: "m = []" by simp
  obtain b1 tr1 where s: "save_phase b = (b1, tr1)" by (cases "save_phase b")
  then have "tabs b1 = tabs b" using save_phase_tabs [of b] by simp
  with l m s show ?thesis by (simp add: manageTabs_def)
qed

lemma loadDomainMappings_empty_iff:
  "fst (loadDomainMappings file) = [] \<longleftrightarrow>
     file = NetworkError \<or>
     (\<exists>status b. file = Response status b \<and>
        (status < 200 \<or> 299 < status \<or> b = InvalidJson \<or> b = Json JArray \<or>
         b = Json JNull \<or> b = Json JPrimitive \<or> b = Json (JObject [])))"
  by (auto simp: loadDomainMappings_def split: fetched.splits body.splits json.splits)

section \<open>Undo\<close>

text \<open>
  C7. If no snapshot is persisted when undo is invoked (the key is absent or holds an
  empty object), undo dispatches no script injection, does nothing else that the trace
  records, and leaves the browser state, the persistent store included, as it was.
\<close>

theorem undo_without_snapshot_noop:
  assumes "storage b = None \<or> storage b = Some []"
  shows "undoChanges b = (b, [])"
  using assms by (auto simp: undoChanges_def has_saved_state_def)

theorem undo_without_snapshot_noop_witness:
  "undoChanges browser_fresh = (browser_fresh, []) \<and>
   undoChanges (browser_fresh\<lparr>storage := Some []\<rparr>) = (browser_fresh\<lparr>storage := Some []\<rparr>, [])"
proof -
  have a: "storage browser_fresh = None \<or> storage browser_fresh = Some []"
    by (simp add: browser_fresh_def)
  have b: "storage (browser_fresh\<lparr>storage := Some []\<rparr>) = None \<or>
           storage (browser_fresh\<lparr>storage := Some []\<rparr>) = Some []"
    by simp
  show ?thesis
    using undo_without_snapshot_noop [OF a] undo_without_snapshot_noop [OF b] by simp
qed

lemma restore_entry_no_remove:
  "StorageRemove \<notin> set tr \<Longrightarrow> StorageRemove \<notin> set (snd (restore_entry e (live, tr)))"
  by (auto simp: restore_entry_def split: prod.splits option.splits sum.splits inject_error.splits)

lemma fold_restore_no_remove:
  "StorageRemove \<notin> set tr \<Longrightarrow> StorageRemove \<notin> set (snd (fold restore_entry snap (live, tr)))"
proof (induction snap arbitrary: live tr)
  case Nil
  then show ?case by simp
next
  case (Cons e snap)
  obtain live' tr' where st: "restore_entry e (live, tr) = (live', tr')"
    by (cases "restore_entry e (live, tr)")
  with restore_entry_no_remove [OF Cons.prems, of e live] have "StorageRemove \<notin> set tr'"
    by simp
  from Cons.IH [OF this] st show ?case by simp
qed

text \<open>
  C6. For every non-empty snapshot, whatever tabs are open and whether or not they can be
  scripted (so however many of the restores fail, all of them included), undo leaves the
  storage key absent: its trace ends with the one removal of the key, after the restores.
\<close>

theorem undo_clears_snapshot:
  assumes "storage b = Some snap" and "snap \<noteq> []"
  shows "storage (fst (undoChanges b)) = None \<and>
         (\<exists>tr. snd (undoChanges b) = tr @ [StorageRemove] \<and> StorageRemove \<notin> set tr)"
proof -
  obtain live tr where f: "fold restore_entry snap (tabs b, []) = (live, tr)"
    by (cases "fold restore_entry snap (tabs b, [])")
  have "StorageRemove \<notin> set tr"
    using fold_restore_no_remove [of "[]" snap "tabs b"] f by simp
  moreover have "undoChanges b = (b\<lparr>tabs := live, storage := None\<rparr>, tr @ [StorageRemove])"
    using assms f by (simp add: undoChanges_def has_saved_state_def)
  ultimately show ?thesis by simp
qed

theorem undo_clears_snapshot_witness:
  "storage (fst (undoChanges browser_stale)) = None \<and>
   (\<exists>tr. snd (undoChanges browser_stale) = tr @ [StorageRemove] \<and> StorageRemove \<notin> set tr) \<and>
   tabs (fst (undoChanges browser_stale)) = tabs browser_stale"
proof -
  have a: "storage browser_stale = Some [(''3'', details_news), (''44'', details_news)]"
    by (simp add: browser_stale_def)
  have b: "[(''3'', details_news), (''44'', details_news)] \<noteq> []"
    by simp
  have c: "tabs (fst (undoChanges browser_stale)) = tabs browser_stale"
    by code_simp
  from undo_clears_snapshot [OF a b] c show ?thesis by simp
qed

section \<open>The blank write\<close>

lemma rel_has_icon_icon: "rel_has ''icon'' (l\<lparr>href := h, rel := ''icon''\<rparr>)"
  by (simp add: rel_has_def startsWith_def ascii_lower_def)

lemma rel_has_purge_link: "rel_has ''icon'' (purge_link l) = rel_has ''icon'' l"
  using rel_has_icon_icon by (simp add: purge_link_def)

lemma purge_link_blank:
  "rel_has ''icon'' (purge_link l) \<Longrightarrow> href (purge_link l) = blankFavicon \<and> rel (purge_link l) = ''icon''"
  by (simp add: purge_link_def split: if_splits)

lemma rel_has_blank_link: "rel_has ''icon'' blank_link"
  by (simp add: blank_link_def rel_has_def startsWith_def ascii_lower_def)

lemma filter_none: "\<not> list_ex P ls \<Longrightarrow> filter P ls = []"
  by (induction ls) simp_all

lemma map_purge_none: "\<not> list_ex (rel_has ''icon'') ls \<Longrightarrow> map purge_link ls = ls"
  by (induction ls) (simp_all add: purge_link_def)

text \<open>
  C9. After \<^verbatim>\<open>purgeTabDetails\<close> the title is the zero-width space, every icon link of the
  page has the transparent GIF as its address and \<^verbatim>\<open>icon\<close> as its relation, no link
  element is added when the page had an icon link, and when it had none exactly one link
  is created (at the end of the head), which is then the page's only icon link.
\<close>

theorem purge_postcondition:
  "doc_title (purgeTabDetails d) = ZWSP \<and>
   (\<forall>l \<in> set (all_links (purgeTabDetails d)).
      rel_has ''icon'' l \<longrightarrow> href l = blankFavicon \<and> rel l = ''icon'') \<and>
   (if list_ex (rel_has ''icon'') (all_links d)
    then all_links (purgeTabDetails d) = map purge_link (all_links d)
    else all_links (purgeTabDetails d) = head_links d @ [blank_link] @ body_links d \<and>
         filter (rel_has ''icon'') (all_links (purgeTabDetails d)) = [blank_link])"
proof (cases "list_ex (rel_has ''icon'') (all_links d)")
  case True
  then have p: "purgeTabDetails d =
      d\<lparr>doc_title := ZWSP, head_links := map purge_link (head_links d),
        body_links := map purge_link (body_links d)\<rparr>"
    by (simp add: purgeTabDetails_def Let_def)
  have links: "all_links (purgeTabDetails d) = map purge_link (all_links d)"
    by (simp add: p all_links_def)
  have "\<forall>l \<in> set (map purge_link (all_links d)).
      rel_has ''icon'' l \<longrightarrow> href l = blankFavicon \<and> rel l = ''icon''"
    using purge_link_blank by auto
  with True links show ?thesis by (simp add: p)
next
  case False
  then have h: "\<not> list_ex (rel_has ''icon'') (head_links d)"
    and b: "\<not> list_ex (rel_has ''icon'') (body_links d)"
    by (simp_all add: all_links_def)
  have p: "purgeTabDetails d =
      d\<lparr>doc_title := ZWSP, head_links := head_links d @ [blank_link],
        body_links := body_links d\<rparr>"
    using False map_purge_none [OF h] map_purge_none [OF b]
    by (simp add: purgeTabDetails_def Let_def appendChild_def blank_link_def)
  have links: "all_links (purgeTabDetails d) = head_links d @ [blank_link] @ body_links d"
    by (simp add: p all_links_def)
  have f: "filter (rel_has ''icon'') (all_links (purgeTabDetails d)) = [blank_link]"
    by (simp add: links filter_none [OF h] filter_none [OF b] rel_has_blank_link)
  have "\<forall>l \<in> set (all_links (purgeTabDetails d)).
      rel_has ''icon'' l \<longrightarrow> href l = blankFavicon \<and> rel l = ''icon''"
  proof (intro ballI impI)
    fix l assume "l \<in> set (all_links (purgeTabDetails d))" and "rel_has ''icon'' l"
    then have "l \<in> set (filter (rel_has ''icon'') (all_links (purgeTabDetails d)))" by simp
    then have "l = blank_link" by (simp add: f)
    then show "href l = blankFavicon \<and> rel l = ''icon''" by (simp add: blank_link_def)
  qed
  with False links f show ?thesis by (simp add: p)
qed


theorem purge_postcondition_witness:
  "doc_title (purgeTabDetails page_plain) = ZWSP \<and>
   all_links (purgeTabDetails page_plain) = [blank_link] \<and>
   all_links (purgeTabDetails page_icon) =
     [\<lparr>rel = ''stylesheet'', href = ''http://news.example/s.css'', link_type = ''text/css''\<rparr>,
      blank_link]"
proof -
  have a: "list_ex (rel_has ''icon'') (all_links page_plain) = False"
    by code_simp
  have b: "list_ex (rel_has ''icon'') (all_links page_icon) = True"
    by code_simp
  have c: "map purge_link (all_links page_icon) =
     [\<lparr>rel = ''stylesheet'', href = ''http://news.example/s.css'', link_type = ''text/css''\<rparr>,
      blank_link]"
    by code_simp
  have d: "head_links page_plain @ [blank_link] @ body_links page_plain = [blank_link]"
    by code_simp
  from purge_postcondition [of page_plain] have 1: "doc_title (purgeTabDetails page_plain) = ZWSP"
    and 2: "all_links (purgeTabDetails page_plain) = [blank_link]"
    unfolding a d by simp_all
  from purge_postcondition [of page_icon] have 3: "all_links (purgeTabDetails page_icon) =
     [\<lparr>rel = ''stylesheet'', href = ''http://news.example/s.css'', link_type = ''text/css''\<rparr>,
      blank_link]"
    unfolding b c by simp
  from 1 2 3 show ?thesis by simp
qed

section \<open>Modes that write to no tab\<close>

lemma manageTabs_storage:
  "storage (fst (manageTabs mode file rnd interim b)) = storage (fst (save_phase b))"
  by (simp add: manageTabs_def Let_def split: prod.splits)

lemma list_all_gets: "list_all (\<lambda>(i, s). s = GetTabDetails) (map (\<lambda>i. (i, GetTabDetails)) xs)"
  by (induction xs) simp_all

lemma list_all_gets_no_write:
  "list_all (\<lambda>(i, s). \<not> is_write s) (map (\<lambda>i. (i, GetTabDetails)) xs)"
  by (induction xs) simp_all

text \<open>
  C10. For a mode other than \<^verbatim>\<open>purgeAll\<close> and \<^verbatim>\<open>professional\<close>, \<^verbatim>\<open>manageTabs\<close> leaves every
  tab as it was (title and links included: the open tabs it leaves are those the second
  query found, whatever happened to them between the phases) and injects nothing but
  \<^verbatim>\<open>getTabDetails\<close>; it persists the same snapshot as a \<^verbatim>\<open>purgeAll\<close> invocation would: when a
  snapshot exists nothing at all happens, and when none exists every eligible tab is read,
  the details of those that could be read are recorded under their identifiers, and the
  snapshot is written once.
\<close>

theorem other_mode_only_saves:
  assumes "mode \<noteq> ''purgeAll''" and "mode \<noteq> ''professional''"
  shows "tabs (fst (manageTabs mode file rnd interim b)) = interim (tabs b) \<and>
         list_all (\<lambda>(i, s). s = GetTabDetails) (injections (snd (manageTabs mode file rnd interim b))) \<and>
         storage (fst (manageTabs mode file rnd interim b)) =
           storage (fst (manageTabs ''purgeAll'' file rnd interim b)) \<and>
         (if has_saved_state (storage b)
          then manageTabs mode file rnd interim b = (b\<lparr>tabs := interim (tabs b)\<rparr>, [])
          else targets (snd (manageTabs mode file rnd interim b)) = eligible_ids (tabs b) \<and>
               (\<exists>snap. storage (fst (manageTabs mode file rnd interim b)) = Some snap \<and>
                  snapshot_writes (snd (manageTabs mode file rnd interim b)) = [snap] \<and>
                  (\<forall>i \<in> set (eligible_ids (tabs b)).
                     map_of snap (String i) = captured i (tabs b))))"
proof -
  let ?r = "manageTabs mode file rnd interim b"
  have m: "?r = ((fst (save_phase b))\<lparr>tabs := interim (tabs b)\<rparr>, snd (save_phase b))"
    using assms by (rule manageTabs_other)
  have t: "snd ?r = snd (save_phase b)" by (simp add: m)
  have 1: "tabs (fst ?r) = interim (tabs b)" by (simp add: m)
  have 2: "list_all (\<lambda>(i, s). s = GetTabDetails) (injections (snd (save_phase b)))"
    by (simp add: save_phase_injections list_all_gets)
  have 3: "storage (fst ?r) = storage (fst (manageTabs ''purgeAll'' file rnd interim b))"
    by (simp add: manageTabs_storage)
  have 4: "?r = (b\<lparr>tabs := interim (tabs b)\<rparr>, [])" if "has_saved_state (storage b)"
    using that by (simp add: m save_phase_skip)
  have 5: "targets (snd (save_phase b)) = eligible_ids (tabs b) \<and>
      (\<exists>snap. storage (fst (save_phase b)) = Some snap \<and>
         snapshot_writes (snd (save_phase b)) = [snap] \<and>
         (\<forall>i \<in> set (eligible_ids (tabs b)). map_of snap (String i) = captured i (tabs b)))"
    if n: "\<not> has_saved_state (storage b)"
  proof -
    have tg: "targets (snd (save_phase b)) = eligible_ids (tabs b)"
      using n by (simp add: targets_def save_phase_injections comp_def)
    from save_phase_storage [OF n] obtain snap where s: "storage (fst (save_phase b)) = Some snap"
      and l: "\<forall>i \<in> set (eligible_ids (tabs b)). map_of snap (String i) = captured i (tabs b)"
      by blast
    have "snapshot_writes (snd (save_phase b)) = [snap]"
      using n s by (simp add: save_phase_writes)
    with tg s l show ?thesis by blast
  qed
  have 6: "storage (fst ?r) = storage (fst (save_phase b))" by (simp add: m)
  show ?thesis
  proof (cases "has_saved_state (storage b)")
    case True
    with 1 2 3 4 show ?thesis unfolding t by simp
  next
    case False
    with 1 2 3 5 [OF False] show ?thesis unfolding t 6 by simp
  qed
qed

theorem other_mode_only_saves_witness:
  "tabs (fst (manageTabs ''stealth'' mappings_ok (\<lambda>k. 0) (\<lambda>ts. ts) browser_fresh)) = tabs browser_fresh \<and>
   targets (snd (manageTabs ''stealth'' mappings_ok (\<lambda>k. 0) (\<lambda>ts. ts) browser_fresh)) = [7, 12] \<and>
   storage (fst (manageTabs ''stealth'' mappings_ok (\<lambda>k. 0) (\<lambda>ts. ts) browser_fresh)) \<noteq>
     storage browser_fresh"
proof -
  have a: "''stealth'' \<noteq> ''purgeAll''" and b: "''stealth'' \<noteq> ''professional''"
    by simp_all
  have c: "has_saved_state (storage browser_fresh) = False" by code_simp
  have d: "eligible_ids (tabs browser_fresh) = [7, 12]" by code_simp
  have e: "storage browser_fresh = None" by code_simp
  note th = other_mode_only_saves [OF a b, of mappings_ok "\<lambda>k. 0" "\<lambda>ts. ts" browser_fresh]
  have 1: "tabs (fst (manageTabs ''stealth'' mappings_ok (\<lambda>k. 0) (\<lambda>ts. ts) browser_fresh)) = tabs browser_fresh"
    using th by (rule conjunct1)
  have 4: "targets (snd (manageTabs ''stealth'' mappings_ok (\<lambda>k. 0) (\<lambda>ts. ts) browser_fresh)) =
             eligible_ids (tabs browser_fresh) \<and>
           (\<exists>snap. storage (fst (manageTabs ''stealth'' mappings_ok (\<lambda>k. 0) (\<lambda>ts. ts) browser_fresh)) = Some snap \<and>
              snapshot_writes (snd (manageTabs ''stealth'' mappings_ok (\<lambda>k. 0) (\<lambda>ts. ts) browser_fresh)) = [snap] \<and>
              (\<forall>i \<in> set (eligible_ids (tabs browser_fresh)).
                 map_of snap (String i) = captured i (tabs browser_fresh)))"
    using th [THEN conjunct2, THEN conjunct2, THEN conjunct2] unfolding c by simp
  then obtain snap where
    "storage (fst (manageTabs ''stealth'' mappings_ok (\<lambda>k. 0) (\<lambda>ts. ts) browser_fresh)) = Some snap"
    by blast
  then have 5: "storage (fst (manageTabs ''stealth'' mappings_ok (\<lambda>k. 0) (\<lambda>ts. ts) browser_fresh)) \<noteq>
     storage browser_fresh"
    by (simp add: e)
  from 1 4 5 show ?thesis by (simp add: d)
qed

text \<open>
  C5. When \<^verbatim>\<open>loadDomainMappings\<close> gives an empty mapping, \<^verbatim>\<open>manageTabs('professional')\<close>
  leaves every tab as it was (the open tabs it leaves are those the second query found) and
  dispatches no write to any tab; it logs the failure and
  returns (the model of \<^verbatim>\<open>manageTabs\<close> has no failing outcome). A snapshot that existed is
  untouched, and one created by this invocation's save phase stays persisted. The lemma
  \<open>loadDomainMappings_empty_iff\<close> lists the answers of the fetch that give an empty mapping.
\<close>

theorem professional_empty_mapping_aborts:
  assumes "fst (loadDomainMappings file) = []"
  shows "tabs (fst (manageTabs ''professional'' file rnd interim b)) = interim (tabs b) \<and>
         list_all (\<lambda>(i, s). \<not> is_write s)
           (injections (snd (manageTabs ''professional'' file rnd interim b))) \<and>
         ConsoleError no_mappings_message \<in> set (snd (manageTabs ''professional'' file rnd interim b)) \<and>
         (if has_saved_state (storage b)
          then storage (fst (manageTabs ''professional'' file rnd interim b)) = storage b \<and>
               snapshot_writes (snd (manageTabs ''professional'' file rnd interim b)) = []
          else (\<exists>snap. storage (fst (manageTabs ''professional'' file rnd interim b)) = Some snap \<and>
                  snapshot_writes (snd (manageTabs ''professional'' file rnd interim b)) = [snap] \<and>
                  (\<forall>i \<in> set (eligible_ids (tabs b)).
                     map_of snap (String i) = captured i (tabs b))))"
proof -
  let ?r = "manageTabs ''professional'' file rnd interim b"
  have m: "?r = ((fst (save_phase b))\<lparr>tabs := interim (tabs b)\<rparr>,
      snd (save_phase b) @ snd (loadDomainMappings file) @ [ConsoleError no_mappings_message])"
    using assms by (rule manageTabs_professional_empty)
  have 1: "tabs (fst ?r) = interim (tabs b)" by (simp add: m)
  have i: "injections (snd ?r) = injections (snd (save_phase b))"
    by (simp add: m injections_append loadDomainMappings_trace)
  have w: "snapshot_writes (snd ?r) = snapshot_writes (snd (save_phase b))"
    by (simp add: m snapshot_writes_append loadDomainMappings_trace)
  have 2: "list_all (\<lambda>(i, s). \<not> is_write s) (injections (snd ?r))"
    by (simp add: i save_phase_injections list_all_gets_no_write)
  have 3: "ConsoleError no_mappings_message \<in> set (snd ?r)" by (simp add: m)
  have 4: "storage (fst ?r) = storage b \<and> snapshot_writes (snd ?r) = []"
    if "has_saved_state (storage b)"
    using that by (simp add: w save_phase_writes manageTabs_storage save_phase_skip)
  have 5: "\<exists>snap. storage (fst ?r) = Some snap \<and> snapshot_writes (snd ?r) = [snap] \<and>
      (\<forall>i \<in> set (eligible_ids (tabs b)). map_of snap (String i) = captured i (tabs b))"
    if n: "\<not> has_saved_state (storage b)"
  proof -
    from save_phase_storage [OF n] obtain snap where s: "storage (fst (save_phase b)) = Some snap"
      and l: "\<forall>i \<in> set (eligible_ids (tabs b)). map_of snap (String i) = captured i (tabs b)"
      by blast
    have "snapshot_writes (snd ?r) = [snap]"
      using n s by (simp add: w save_phase_writes)
    with s l show ?thesis by (auto simp: manageTabs_storage)
  qed
  from 1 2 3 4 5 show ?thesis by simp
qed

theorem professional_empty_mapping_aborts_witness:
  "tabs (fst (manageTabs ''professional'' (Response 404 InvalidJson) (\<lambda>k. 0) (\<lambda>ts. ts) browser_fresh)) =
     tabs browser_fresh \<and>
   tabs (fst (manageTabs ''professional'' (Response 200 (Json (JObject []))) (\<lambda>k. 0) (\<lambda>ts. ts) browser_fresh)) =
     tabs browser_fresh \<and>
   (\<exists>snap. storage (fst (manageTabs ''professional'' NetworkError (\<lambda>k. 0) (\<lambda>ts. ts) browser_fresh)) =
       Some snap \<and>
     snapshot_writes (snd (manageTabs ''professional'' NetworkError (\<lambda>k. 0) (\<lambda>ts. ts) browser_fresh)) =
       [snap] \<and>
     map_of snap ''7'' = Some details_news)"
proof -
  have a: "fst (loadDomainMappings (Response 404 InvalidJson)) = []" by code_simp
  have b: "fst (loadDomainMappings (Response 200 (Json (JObject [])))) = []" by code_simp
  have c: "fst (loadDomainMappings NetworkError) = []" by code_simp
  have d: "has_saved_state (storage browser_fresh) = False" by code_simp
  have e: "eligible_ids (tabs browser_fresh) = [7, 12]" by code_simp
  have f: "String 7 = ''7''" by code_simp
  have g: "captured 7 (tabs browser_fresh) = Some details_news" by code_simp
  from professional_empty_mapping_aborts [OF a, of "\<lambda>k. 0" "\<lambda>ts. ts" browser_fresh]
  have 1: "tabs (fst (manageTabs ''professional'' (Response 404 InvalidJson) (\<lambda>k. 0) (\<lambda>ts. ts) browser_fresh)) =
     tabs browser_fresh" by simp
  from professional_empty_mapping_aborts [OF b, of "\<lambda>k. 0" "\<lambda>ts. ts" browser_fresh]
  have 2: "tabs (fst (manageTabs ''professional'' (Response 200 (Json (JObject []))) (\<lambda>k. 0) (\<lambda>ts. ts) browser_fresh)) =
     tabs browser_fresh" by simp
  from professional_empty_mapping_aborts [OF c, of "\<lambda>k. 0" "\<lambda>ts. ts" browser_fresh]
  have 3: "\<exists>snap. storage (fst (manageTabs ''professional'' NetworkError (\<lambda>k. 0) (\<lambda>ts. ts) browser_fresh)) =
       Some snap \<and>
     snapshot_writes (snd (manageTabs ''professional'' NetworkError (\<lambda>k. 0) (\<lambda>ts. ts) browser_fresh)) =
       [snap] \<and>
     map_of snap ''7'' = Some details_news"
    unfolding d e using f g by auto
  from 1 2 3 show ?thesis by simp
qed

section \<open>The apply phase\<close>

lemma purge_tab_trace:
  "\<exists>live' ev. purge_tab t (live, tr) = (live', tr @ ev) \<and> snapshot_writes ev = [] \<and>
     injections ev = map (\<lambda>i. (i, PurgeTabDetails)) (eligible_ids [t])"
  by (auto simp: purge_tab_def split: option.splits prod.splits sum.splits)

lemma fold_purge_trace:
  "\<exists>live' ev. fold purge_tab xs (live, tr) = (live', tr @ ev) \<and> snapshot_writes ev = [] \<and>
     injections ev = map (\<lambda>i. (i, PurgeTabDetails)) (eligible_ids xs)"
proof (induction xs arbitrary: live tr)
  case Nil
  then show ?case by simp
next
  case (Cons t xs)
  obtain live1 ev1 where 1: "purge_tab t (live, tr) = (live1, tr @ ev1)"
    and w1: "snapshot_writes ev1 = []"
    and i1: "injections ev1 = map (\<lambda>i. (i, PurgeTabDetails)) (eligible_ids [t])"
    using purge_tab_trace by blast
  obtain live2 ev2 where 2: "fold purge_tab xs (live1, tr @ ev1) = (live2, (tr @ ev1) @ ev2)"
    and w2: "snapshot_writes ev2 = []"
    and i2: "injections ev2 = map (\<lambda>i. (i, PurgeTabDetails)) (eligible_ids xs)"
    using Cons.IH by blast
  have e: "eligible_ids (t # xs) = eligible_ids [t] @ eligible_ids xs"
    by (simp split: option.splits)
  have "fold purge_tab (t # xs) (live, tr) = (live2, tr @ (ev1 @ ev2))"
    using 1 2 by simp
  moreover have "snapshot_writes (ev1 @ ev2) = []"
    using w1 w2 by (simp add: snapshot_writes_append)
  moreover have "injections (ev1 @ ev2) = map (\<lambda>i. (i, PurgeTabDetails)) (eligible_ids (t # xs))"
    using i1 i2 unfolding e by (simp add: injections_append)
  ultimately show ?case by blast
qed

lemma apply_random_tab_trace:
  "\<exists>live' k' ev. apply_random_tab m rnd t (live, k, tr) = (live', k', tr @ ev) \<and>
     snapshot_writes ev = [] \<and> map fst (injections ev) = eligible_ids [t] \<and>
     list_all (\<lambda>(i, s). is_write s) (injections ev)"
  by (auto simp: apply_random_tab_def Let_def split: option.splits prod.splits sum.splits)

lemma fold_apply_random_trace:
  "\<exists>live' k' ev. fold (apply_random_tab m rnd) xs (live, k, tr) = (live', k', tr @ ev) \<and>
     snapshot_writes ev = [] \<and> map fst (injections ev) = eligible_ids xs \<and>
     list_all (\<lambda>(i, s). is_write s) (injections ev)"
proof (induction xs arbitrary: live k tr)
  case Nil
  then show ?case by simp
next
  case (Cons t xs)
  obtain live1 k1 ev1 where 1: "apply_random_tab m rnd t (live, k, tr) = (live1, k1, tr @ ev1)"
    and w1: "snapshot_writes ev1 = []"
    and i1: "map fst (injections ev1) = eligible_ids [t]"
    and p1: "list_all (\<lambda>(i, s). is_write s) (injections ev1)"
    using apply_random_tab_trace by blast
  obtain live2 k2 ev2 where
    2: "fold (apply_random_tab m rnd) xs (live1, k1, tr @ ev1) = (live2, k2, (tr @ ev1) @ ev2)"
    and w2: "snapshot_writes ev2 = []"
    and i2: "map fst (injections ev2) = eligible_ids xs"
    and p2: "list_all (\<lambda>(i, s). is_write s) (injections ev2)"
    using Cons.IH by blast
  have e: "eligible_ids (t # xs) = eligible_ids [t] @ eligible_ids xs"
    by (simp split: option.splits)
  have "fold (apply_random_tab m rnd) (t # xs) (live, k, tr) = (live2, k2, tr @ (ev1 @ ev2))"
    using 1 2 by simp
  moreover have "snapshot_writes (ev1 @ ev2) = []"
    using w1 w2 by (simp add: snapshot_writes_append)
  moreover have "map fst (injections (ev1 @ ev2)) = eligible_ids (t # xs)"
    using i1 i2 unfolding e by (simp add: injections_append)
  moreover have "list_all (\<lambda>(i, s). is_write s) (injections (ev1 @ ev2))"
    using p1 p2 by (simp add: injections_append)
  ultimately show ?case by blast
qed

text \<open>The trace of an invocation: that of the save phase, then the apply phase's.\<close>

lemma manageTabs_trace:
  "\<exists>ev. snd (manageTabs mode file rnd interim b) = snd (save_phase b) @ ev \<and>
     snapshot_writes ev = [] \<and>
     list_all (\<lambda>(i, s). is_write s) (injections ev) \<and>
     map fst (injections ev) =
       (if mode = ''purgeAll'' \<or> (mode = ''professional'' \<and> fst (loadDomainMappings file) \<noteq> [])
        then eligible_ids (interim (tabs b)) else [])"
proof -
  obtain b1 tr1 where s: "save_phase b = (b1, tr1)" by (cases "save_phase b")
  then have t: "tabs b1 = tabs b" using save_phase_tabs [of b] by simp
  consider (purge) "mode = ''purgeAll''"
    | (prof) "mode = ''professional''" "fst (loadDomainMappings file) \<noteq> []"
    | (empty) "mode = ''professional''" "fst (loadDomainMappings file) = []"
    | (other) "mode \<noteq> ''purgeAll''" "mode \<noteq> ''professional''"
    by blast
  then show ?thesis
  proof cases
    case purge
    obtain live ev where f: "fold purge_tab (interim (tabs b)) (interim (tabs b), []) = (live, [] @ ev)"
      and w: "snapshot_writes ev = []"
      and i: "injections ev = map (\<lambda>i. (i, PurgeTabDetails)) (eligible_ids (interim (tabs b)))"
      using fold_purge_trace by blast
    have p: "list_all (\<lambda>(i, s). is_write s) (injections ev)"
      unfolding i by (simp add: list_all_iff)
    have "snd (manageTabs mode file rnd interim b) = tr1 @ ev"
      using purge s t f by (simp add: manageTabs_def)
    with w i p purge s show ?thesis by (simp add: comp_def)
  next
    case prof
    obtain m tr2 where l: "loadDomainMappings file = (m, tr2)"
      by (cases "loadDomainMappings file")
    with prof have ne: "m \<noteq> []" by simp
    have l2: "snapshot_writes tr2 = []" "injections tr2 = []"
      using loadDomainMappings_trace [of "file"] l by simp_all
    obtain live k ev where f: "fold (apply_random_tab m rnd) (interim (tabs b)) (interim (tabs b), 0, []) =
        (live, k, [] @ ev)"
      and w: "snapshot_writes ev = []"
      and i: "map fst (injections ev) = eligible_ids (interim (tabs b))"
      and p: "list_all (\<lambda>(i, s). is_write s) (injections ev)"
      using fold_apply_random_trace by blast
    have "snd (manageTabs mode file rnd interim b) = tr1 @ (tr2 @ ev)"
      using prof s t f l ne by (simp add: manageTabs_def)
    moreover have "snapshot_writes (tr2 @ ev) = []" "injections (tr2 @ ev) = injections ev"
      using l2 w by (simp_all add: snapshot_writes_append injections_append)
    ultimately show ?thesis using i p prof s by simp
  next
    case empty
    have "snd (manageTabs mode file rnd interim b) =
        tr1 @ (snd (loadDomainMappings file) @ [ConsoleError no_mappings_message])"
      using empty s by (simp add: manageTabs_professional_empty)
    moreover have "snapshot_writes (snd (loadDomainMappings file) @ [ConsoleError no_mappings_message]) = []"
      "injections (snd (loadDomainMappings file) @ [ConsoleError no_mappings_message]) = []"
      by (simp_all add: snapshot_writes_append injections_append loadDomainMappings_trace)
    ultimately show ?thesis using empty s by simp
  next
    case other
    then have "snd (manageTabs mode file rnd interim b) = tr1 @ []"
      using s by (simp add: manageTabs_other)
    with other s show ?thesis by simp
  qed
qed

section \<open>Disguising twice\<close>

lemma manageTabs_writes:
  "snapshot_writes (snd (manageTabs mode file rnd interim b)) = snapshot_writes (snd (save_phase b))"
proof -
  obtain ev where "snd (manageTabs mode file rnd interim b) = snd (save_phase b) @ ev"
    and "snapshot_writes ev = []"
    using manageTabs_trace by blast
  then show ?thesis by (simp add: snapshot_writes_append)
qed

lemma manageTabs_no_read:
  assumes "has_saved_state (storage b)"
  shows "list_all (\<lambda>(i, s). is_write s) (injections (snd (manageTabs mode file rnd interim b)))"
proof -
  obtain ev where "snd (manageTabs mode file rnd interim b) = snd (save_phase b) @ ev"
    and "list_all (\<lambda>(i, s). is_write s) (injections ev)"
    using manageTabs_trace by blast
  with assms show ?thesis by (simp add: save_phase_skip)
qed

text \<open>
  C1 (amended). Let an invocation of \<^verbatim>\<open>manageTabs\<close> start with no snapshot and leave a
  non-empty one. Then it wrote the snapshot exactly once, and the snapshot holds, under the
  identifier of each eligible tab that could be read, the details that tab had before the
  disguise, and nothing else. A second invocation without an undo in between, in any mode
  and whatever has happened to the open tabs meanwhile, writes no snapshot, injects no
  \<^verbatim>\<open>getTabDetails\<close>, and leaves the persisted snapshot as the first one left it.
\<close>

theorem second_disguise_keeps_snapshot:
  assumes "\<not> has_saved_state (storage b)"
    and "has_saved_state (storage (fst (manageTabs mode1 file1 rnd1 interim1 b)))"
  shows "(\<exists>snap. storage (fst (manageTabs mode1 file1 rnd1 interim1 b)) = Some snap \<and>
            snapshot_writes (snd (manageTabs mode1 file1 rnd1 interim1 b)) = [snap] \<and>
            fst ` set snap =
              String ` {i \<in> set (eligible_ids (tabs b)). captured i (tabs b) \<noteq> None} \<and>
            (\<forall>i \<in> set (eligible_ids (tabs b)). map_of snap (String i) = captured i (tabs b))) \<and>
         (\<forall>ts'. snapshot_writes
                  (snd (manageTabs mode2 file2 rnd2 interim2
                         ((fst (manageTabs mode1 file1 rnd1 interim1 b))\<lparr>tabs := ts'\<rparr>))) = [] \<and>
                list_all (\<lambda>(i, s). is_write s)
                  (injections
                    (snd (manageTabs mode2 file2 rnd2 interim2
                           ((fst (manageTabs mode1 file1 rnd1 interim1 b))\<lparr>tabs := ts'\<rparr>)))) \<and>
                storage
                  (fst (manageTabs mode2 file2 rnd2 interim2
                         ((fst (manageTabs mode1 file1 rnd1 interim1 b))\<lparr>tabs := ts'\<rparr>))) =
                storage (fst (manageTabs mode1 file1 rnd1 interim1 b)))"
proof -
  let ?b1 = "fst (manageTabs mode1 file1 rnd1 interim1 b)"
  from save_phase_storage [OF assms(1)] obtain snap where
    s: "storage (fst (save_phase b)) = Some snap"
    and k: "fst ` set snap =
              String ` {i \<in> set (eligible_ids (tabs b)). captured i (tabs b) \<noteq> None}"
    and l: "\<forall>i \<in> set (eligible_ids (tabs b)). map_of snap (String i) = captured i (tabs b)"
    by blast
  have 1: "storage ?b1 = Some snap" using s by (simp add: manageTabs_storage)
  have 2: "snapshot_writes (snd (manageTabs mode1 file1 rnd1 interim1 b)) = [snap]"
    using assms(1) s by (simp add: manageTabs_writes save_phase_writes)
  have 3: "snapshot_writes (snd (manageTabs mode2 file2 rnd2 interim2 (?b1\<lparr>tabs := ts'\<rparr>))) = [] \<and>
           list_all (\<lambda>(i, s). is_write s)
             (injections (snd (manageTabs mode2 file2 rnd2 interim2 (?b1\<lparr>tabs := ts'\<rparr>)))) \<and>
           storage (fst (manageTabs mode2 file2 rnd2 interim2 (?b1\<lparr>tabs := ts'\<rparr>))) = storage ?b1"
    for ts'
  proof -
    have h: "has_saved_state (storage (?b1\<lparr>tabs := ts'\<rparr>))"
      using assms(2) by simp
    show ?thesis
      using h manageTabs_no_read [OF h]
      by (simp add: manageTabs_writes manageTabs_storage save_phase_skip)
  qed
  from 1 2 k l 3 show ?thesis by blast
qed

theorem second_disguise_keeps_snapshot_witness:
  "snapshot_writes (snd (manageTabs ''purgeAll'' mappings_ok (\<lambda>k. 0) (\<lambda>ts. ts) browser_fresh)) @
   snapshot_writes
     (snd (manageTabs ''professional'' mappings_ok (\<lambda>k. 0) (\<lambda>ts. ts)
            (fst (manageTabs ''purgeAll'' mappings_ok (\<lambda>k. 0) (\<lambda>ts. ts) browser_fresh)))) =
     [ [(''7'', details_news),
       (''12'', \<lparr>title = ''Inbox'', faviconHref = None, faviconRel = ''icon''\<rparr>)] ] \<and>
   storage
     (fst (manageTabs ''professional'' mappings_ok (\<lambda>k. 0) (\<lambda>ts. ts)
            (fst (manageTabs ''purgeAll'' mappings_ok (\<lambda>k. 0) (\<lambda>ts. ts) browser_fresh)))) =
     Some [(''7'', details_news),
           (''12'', \<lparr>title = ''Inbox'', faviconHref = None, faviconRel = ''icon''\<rparr>)]"
proof -
  let ?b1 = "fst (manageTabs ''purgeAll'' mappings_ok (\<lambda>k. 0) (\<lambda>ts. ts) browser_fresh)"
  have a: "\<not> has_saved_state (storage browser_fresh)" by code_simp
  have b: "has_saved_state (storage ?b1)" by code_simp
  have c: "storage ?b1 =
     Some [(''7'', details_news),
           (''12'', \<lparr>title = ''Inbox'', faviconHref = None, faviconRel = ''icon''\<rparr>)]"
    by code_simp
  have d: "?b1\<lparr>tabs := tabs ?b1\<rparr> = ?b1" by simp
  note th = second_disguise_keeps_snapshot [OF a b, of "''professional''" mappings_ok "\<lambda>k. 0" "\<lambda>ts. ts"]
  from th have 1: "snapshot_writes (snd (manageTabs ''purgeAll'' mappings_ok (\<lambda>k. 0) (\<lambda>ts. ts) browser_fresh)) =
     [ [(''7'', details_news),
       (''12'', \<lparr>title = ''Inbox'', faviconHref = None, faviconRel = ''icon''\<rparr>)] ]"
    unfolding c by auto
  from th [THEN conjunct2, THEN spec, of "tabs ?b1"]
  have 2: "snapshot_writes (snd (manageTabs ''professional'' mappings_ok (\<lambda>k. 0) (\<lambda>ts. ts) ?b1)) = []"
    and 3: "storage (fst (manageTabs ''professional'' mappings_ok (\<lambda>k. 0) (\<lambda>ts. ts) ?b1)) = storage ?b1"
    unfolding d by simp_all
  from 1 2 3 c show ?thesis by simp
qed

text \<open>
  C1 as stated fails when the first invocation reads no tab: the empty object it stores counts
  as no snapshot, so the second invocation runs the save phase again and writes a second
  time; if a tab has been opened meanwhile, the second write records that tab.
\<close>

theorem snapshot_written_twice_counterexample:
  "snapshot_writes (snd (manageTabs ''purgeAll'' mappings_ok (\<lambda>k. 0) (\<lambda>ts. ts) browser_internal)) = [ [] ] \<and>
   snapshot_writes
     (snd (manageTabs ''purgeAll'' mappings_ok (\<lambda>k. 0) (\<lambda>ts. ts)
            (fst (manageTabs ''purgeAll'' mappings_ok (\<lambda>k. 0) (\<lambda>ts. ts) browser_internal)))) = [ [] ] \<and>
   storage (fst (manageTabs ''purgeAll'' mappings_ok (\<lambda>k. 0) (\<lambda>ts. ts) browser_internal)) = Some [] \<and>
   snd (manageTabs ''purgeAll'' mappings_ok (\<lambda>k. 0) (\<lambda>ts. ts) browser_new_tab) =
     [ExecuteScript 7 GetTabDetails,
      StorageSet [(''7'', \<lparr>title = ''News'', faviconHref = Some ''http://news.example/f.png'',
                           faviconRel = ''shortcut icon''\<rparr>)],
      ExecuteScript 7 PurgeTabDetails]"
  by code_simp

section \<open>Which tabs are reached\<close>

lemma startsWith_append: "startsWith s p \<Longrightarrow> \<exists>r. s = p @ r"
  unfolding startsWith_def by (metis append_take_drop_id)

lemma scheme_http: "startsWith u ''http:'' \<Longrightarrow> url_scheme u = ''http''"
  by (auto simp: url_scheme_def dest!: startsWith_append)

lemma scheme_https: "startsWith u ''https:'' \<Longrightarrow> url_scheme u = ''https''"
  by (auto simp: url_scheme_def dest!: startsWith_append)

lemma other_scheme_not_eligible:
  "url t = Some u \<Longrightarrow> url_scheme u \<noteq> ''http'' \<Longrightarrow> url_scheme u \<noteq> ''https'' \<Longrightarrow> \<not> eligible t"
  using scheme_http scheme_https by (auto simp: eligible_def)

lemma tab_ids_member: "t \<in> set ts \<Longrightarrow> tab_id t = Some i \<Longrightarrow> i \<in> set (tab_ids ts)"
  by (induction ts) (auto split: option.splits)

lemma eligible_ids_subset: "set (eligible_ids ts) \<subseteq> set (tab_ids ts)"
  by (induction ts) (auto split: option.splits)

lemma not_eligible_not_listed:
  "distinct_ids ts \<Longrightarrow> t \<in> set ts \<Longrightarrow> tab_id t = Some i \<Longrightarrow> \<not> eligible t \<Longrightarrow>
   i \<notin> set (eligible_ids ts)"
proof (induction ts)
  case Nil
  then show ?case by simp
next
  case (Cons a ts)
  show ?case
  proof (cases "t = a")
    case True
    with Cons.prems have "i \<notin> set (tab_ids ts)"
      by (simp add: distinct_ids_def)
    with eligible_ids_subset [of ts] have "i \<notin> set (eligible_ids ts)" by blast
    with True Cons.prems show ?thesis by simp
  next
    case False
    with Cons.prems have m: "t \<in> set ts" by simp
    then have "i \<in> set (tab_ids ts)" using Cons.prems(3) by (rule tab_ids_member)
    with Cons.prems(1) have "tab_id a \<noteq> Some i"
      by (auto simp: distinct_ids_def)
    moreover from Cons.prems(1) have "distinct_ids ts"
      by (simp add: distinct_ids_def split: option.splits)
    ultimately show ?thesis using Cons.IH m Cons.prems(3,4)
      by (auto split: option.splits)
  qed
qed

text \<open>
  The targets of an invocation are eligible tabs of one of the two enumerations: that of the
  save phase, or that of the apply phase.
\<close>

lemma manageTabs_targets:
  "set (targets (snd (manageTabs mode file rnd interim b))) \<subseteq>
     set (eligible_ids (tabs b)) \<union> set (eligible_ids (interim (tabs b)))"
proof -
  obtain ev where e: "snd (manageTabs mode file rnd interim b) = snd (save_phase b) @ ev"
    and m: "map fst (injections ev) =
       (if mode = ''purgeAll'' \<or> (mode = ''professional'' \<and> fst (loadDomainMappings file) \<noteq> [])
        then eligible_ids (interim (tabs b)) else [])"
    using manageTabs_trace by blast
  have "targets (snd (manageTabs mode file rnd interim b)) =
      map fst (injections (snd (save_phase b))) @ map fst (injections ev)"
    by (simp add: targets_def e injections_append)
  then show ?thesis
    unfolding m by (auto simp: save_phase_injections)
qed

lemma eligible_scheme:
  "eligible t \<Longrightarrow> \<exists>u. url t = Some u \<and> (url_scheme u = ''http'' \<or> url_scheme u = ''https'')"
  using scheme_http scheme_https by (auto simp: eligible_def split: option.splits)

lemma eligible_ids_witness:
  "i \<in> set (eligible_ids ts) \<Longrightarrow> \<exists>t \<in> set ts. tab_id t = Some i \<and> eligible t"
  by (induction ts) (auto split: option.splits if_splits)

text \<open>An identifier borne only by tabs of other schemes is not among the eligible ones.\<close>

lemma other_scheme_not_listed:
  assumes "\<forall>t \<in> set ts. tab_id t = Some i \<longrightarrow>
             (\<forall>u. url t = Some u \<longrightarrow> url_scheme u \<noteq> ''http'' \<and> url_scheme u \<noteq> ''https'')"
  shows "i \<notin> set (eligible_ids ts)"
proof
  assume "i \<in> set (eligible_ids ts)"
  then obtain t where "t \<in> set ts" and "tab_id t = Some i" and "eligible t"
    using eligible_ids_witness by blast
  with assms eligible_scheme [of t] show False by blast
qed

text \<open>The injections of undo: one restore for each entry with a numeric key, in order.\<close>

lemma restore_entry_trace:
  "\<exists>live' ev. restore_entry (k, d) (live, tr) = (live', tr @ ev) \<and>
     injections ev = (case parseInt k of None \<Rightarrow> [] | Some j \<Rightarrow> [(j, RestoreTabDetails d)]) \<and>
     (parseInt k = None \<longrightarrow>
        ev = [ConsoleWarn (''Invalid tabId found in storage: '' @ k @ '', skipping restore.'')])"
  by (auto simp: restore_entry_def split: option.splits prod.splits sum.splits inject_error.splits)

lemma fold_restore_trace:
  "\<exists>live' ev. fold restore_entry snap (live, tr) = (live', tr @ ev) \<and>
     injections ev =
       List.map_filter (\<lambda>(k, d). map_option (\<lambda>j. (j, RestoreTabDetails d)) (parseInt k)) snap \<and>
     (\<forall>(k, d) \<in> set snap. parseInt k = None \<longrightarrow>
        ConsoleWarn (''Invalid tabId found in storage: '' @ k @ '', skipping restore.'') \<in> set ev)"
proof (induction snap arbitrary: live tr)
  case Nil
  then show ?case by (simp add: List.map_filter_simps)
next
  case (Cons e snap)
  obtain k d where e: "e = (k, d)" by (cases e)
  obtain live1 ev1 where 1: "restore_entry (k, d) (live, tr) = (live1, tr @ ev1)"
    and i1: "injections ev1 =
       (case parseInt k of None \<Rightarrow> [] | Some j \<Rightarrow> [(j, RestoreTabDetails d)])"
    and w1: "parseInt k = None \<longrightarrow>
       ev1 = [ConsoleWarn (''Invalid tabId found in storage: '' @ k @ '', skipping restore.'')]"
    using restore_entry_trace by blast
  obtain live2 ev2 where 2: "fold restore_entry snap (live1, tr @ ev1) = (live2, (tr @ ev1) @ ev2)"
    and i2: "injections ev2 =
       List.map_filter (\<lambda>(k, d). map_option (\<lambda>j. (j, RestoreTabDetails d)) (parseInt k)) snap"
    and w2: "\<forall>(k, d) \<in> set snap. parseInt k = None \<longrightarrow>
        ConsoleWarn (''Invalid tabId found in storage: '' @ k @ '', skipping restore.'') \<in> set ev2"
    using Cons.IH by blast
  have "fold restore_entry (e # snap) (live, tr) = (live2, tr @ (ev1 @ ev2))"
    using e 1 2 by simp
  moreover have "injections (ev1 @ ev2) =
       List.map_filter (\<lambda>(k, d). map_option (\<lambda>j. (j, RestoreTabDetails d)) (parseInt k)) (e # snap)"
    using i1 i2 e by (simp add: injections_append List.map_filter_simps split: option.splits)
  moreover have "\<forall>(k, d) \<in> set (e # snap). parseInt k = None \<longrightarrow>
        ConsoleWarn (''Invalid tabId found in storage: '' @ k @ '', skipping restore.'')
          \<in> set (ev1 @ ev2)"
    using w1 w2 e by auto
  ultimately show ?case by blast
qed

lemma undoChanges_trace:
  assumes "storage b = Some snap" and "snap \<noteq> []"
  shows "injections (snd (undoChanges b)) =
           List.map_filter (\<lambda>(k, d). map_option (\<lambda>j. (j, RestoreTabDetails d)) (parseInt k)) snap \<and>
         (\<forall>(k, d) \<in> set snap. parseInt k = None \<longrightarrow>
            ConsoleWarn (''Invalid tabId found in storage: '' @ k @ '', skipping restore.'')
              \<in> set (snd (undoChanges b)))"
proof -
  obtain live ev where f: "fold restore_entry snap (tabs b, []) = (live, [] @ ev)"
    and i: "injections ev =
       List.map_filter (\<lambda>(k, d). map_option (\<lambda>j. (j, RestoreTabDetails d)) (parseInt k)) snap"
    and w: "\<forall>(k, d) \<in> set snap. parseInt k = None \<longrightarrow>
        ConsoleWarn (''Invalid tabId found in storage: '' @ k @ '', skipping restore.'') \<in> set ev"
    using fold_restore_trace by blast
  have "snd (undoChanges b) = ev @ [StorageRemove]"
    using assms f by (simp add: undoChanges_def has_saved_state_def)
  with i w show ?thesis by (auto simp: injections_append)
qed

lemma set_map_filter_conv:
  "set (List.map_filter f xs) = {y. \<exists>x \<in> set xs. f x = Some y}"
  by (induction xs) (auto simp: List.map_filter_simps split: option.splits)

lemma undo_targets_recorded:
  assumes "i \<in> set (targets (snd (undoChanges b)))"
  shows "\<exists>snap k. storage b = Some snap \<and> k \<in> fst ` set snap \<and> parseInt k = Some i"
proof (cases "has_saved_state (storage b)")
  case False
  with assms show ?thesis by (simp add: undoChanges_def targets_def)
next
  case True
  then obtain snap where s: "storage b = Some snap" and n: "snap \<noteq> []"
    by (auto simp: has_saved_state_iff)
  from undoChanges_trace [OF s n] assms
  have "i \<in> fst ` set (List.map_filter
      (\<lambda>(k, d). map_option (\<lambda>j. (j, RestoreTabDetails d)) (parseInt k)) snap)"
    by (simp add: targets_def)
  then obtain k d where "(k, d) \<in> set snap" and "parseInt k = Some i"
    by (auto simp: set_map_filter_conv)
  with s show ?thesis by force
qed

text \<open>
  C3 (amended). A tab whose URL scheme is neither \<^verbatim>\<open>http\<close> nor \<^verbatim>\<open>https\<close> is the target of
  no script injection of \<^verbatim>\<open>manageTabs\<close>, in any mode: it is left out of the save phase and
  of the apply phase. This holds when the open tabs are the same at both enumerations, and,
  when they have changed in between, as long as every tab that bears the identifier at the
  second enumeration has such a scheme as well. The tab is therefore not recorded in a
  snapshot that the invocation creates, and an undo of that snapshot, which tests no URL and
  dispatches its restores to the identifiers recorded in the snapshot, dispatches none to
  that tab's identifier.
\<close>

theorem other_scheme_excluded:
  assumes "distinct_ids (tabs b)" and "t \<in> set (tabs b)" and "tab_id t = Some i"
    and "url t = Some u" and "url_scheme u \<noteq> ''http''" and "url_scheme u \<noteq> ''https''"
  shows "i \<notin> set (targets (snd (manageTabs mode file rnd (\<lambda>ts. ts) b))) \<and>
         ((\<forall>t' \<in> set (interim (tabs b)). tab_id t' = Some i \<longrightarrow>
             (\<forall>u'. url t' = Some u' \<longrightarrow> url_scheme u' \<noteq> ''http'' \<and> url_scheme u' \<noteq> ''https'')) \<longrightarrow>
          i \<notin> set (targets (snd (manageTabs mode file rnd interim b)))) \<and>
         (\<not> has_saved_state (storage b) \<longrightarrow>
            (\<forall>ts'. i \<notin> set (targets (snd (undoChanges
                      ((fst (manageTabs mode file rnd interim b))\<lparr>tabs := ts'\<rparr>))))))"
proof -
  have ne: "\<not> eligible t"
    using assms(4-6) by (rule other_scheme_not_eligible)
  have nl: "i \<notin> set (eligible_ids (tabs b))"
    using assms(1-3) ne by (rule not_eligible_not_listed)
  have 1: "i \<notin> set (targets (snd (manageTabs mode file rnd (\<lambda>ts. ts) b)))"
    using nl manageTabs_targets [of mode "file" rnd "\<lambda>ts. ts" b] by blast
  have 2: "i \<notin> set (targets (snd (manageTabs mode file rnd interim b)))"
    if "\<forall>t' \<in> set (interim (tabs b)). tab_id t' = Some i \<longrightarrow>
          (\<forall>u'. url t' = Some u' \<longrightarrow> url_scheme u' \<noteq> ''http'' \<and> url_scheme u' \<noteq> ''https'')"
    using nl other_scheme_not_listed [OF that] manageTabs_targets [of mode "file" rnd interim b]
    by blast
  have 3: "i \<notin> set (targets (snd (undoChanges ((fst (manageTabs mode file rnd interim b))\<lparr>tabs := ts'\<rparr>))))"
    if n: "\<not> has_saved_state (storage b)" for ts'
  proof
    let ?b1 = "(fst (manageTabs mode file rnd interim b))\<lparr>tabs := ts'\<rparr>"
    assume "i \<in> set (targets (snd (undoChanges ?b1)))"
    then obtain snap k where s: "storage ?b1 = Some snap" and k: "k \<in> fst ` set snap"
      and p: "parseInt k = Some i"
      using undo_targets_recorded by blast
    from save_phase_storage [OF n] obtain snap' where
      s': "storage (fst (save_phase b)) = Some snap'"
      and k': "fst ` set snap' =
          String ` {i \<in> set (eligible_ids (tabs b)). captured i (tabs b) \<noteq> None}"
      by blast
    from s s' have "snap = snap'" by (simp add: manageTabs_storage)
    with k k' obtain j where "k = String j" and "j \<in> set (eligible_ids (tabs b))" by auto
    with p have "i \<in> set (eligible_ids (tabs b))" by (simp add: parseInt_String)
    with nl show False by simp
  qed
  from 1 2 3 show ?thesis by blast
qed

theorem other_scheme_excluded_witness:
  "3 \<notin> set (targets (snd (manageTabs ''purgeAll'' mappings_ok (\<lambda>k. 0) (\<lambda>ts. ts) browser_fresh))) \<and>
   3 \<notin> set (targets (snd (manageTabs ''professional'' mappings_ok (\<lambda>k. 0) (\<lambda>ts. ts) browser_fresh))) \<and>
   3 \<notin> set (targets (snd (manageTabs ''purgeAll'' mappings_ok (\<lambda>k. 0)
                 (\<lambda>ts. [tab_settings, tab_news]) browser_fresh))) \<and>
   3 \<notin> set (targets (snd (undoChanges
                 (fst (manageTabs ''purgeAll'' mappings_ok (\<lambda>k. 0) (\<lambda>ts. ts) browser_fresh)))))"
proof -
  let ?b1 = "fst (manageTabs ''purgeAll'' mappings_ok (\<lambda>k. 0) (\<lambda>ts. ts) browser_fresh)"
  have a: "distinct_ids (tabs browser_fresh)" by code_simp
  have b: "tab_settings \<in> set (tabs browser_fresh)" by (simp add: browser_fresh_def)
  have c: "tab_id tab_settings = Some 3" by (simp add: tab_settings_def)
  have d: "url tab_settings = Some ''chrome://settings/''" by (simp add: tab_settings_def)
  have e: "url_scheme ''chrome://settings/'' \<noteq> ''http''" by code_simp
  have f: "url_scheme ''chrome://settings/'' \<noteq> ''https''" by code_simp
  have g: "\<not> has_saved_state (storage browser_fresh)" by code_simp
  have h: "?b1\<lparr>tabs := tabs ?b1\<rparr> = ?b1" by simp
  have i: "\<forall>t' \<in> set ((\<lambda>ts. [tab_settings, tab_news]) (tabs browser_fresh)).
             tab_id t' = Some 3 \<longrightarrow>
             (\<forall>u'. url t' = Some u' \<longrightarrow> url_scheme u' \<noteq> ''http'' \<and> url_scheme u' \<noteq> ''https'')"
    using e f by (simp add: tab_settings_def tab_news_def)
  note th = other_scheme_excluded [OF a b c d e f]
  have 1: "3 \<notin> set (targets (snd (manageTabs ''purgeAll'' mappings_ok (\<lambda>k. 0) (\<lambda>ts. ts) browser_fresh)))"
    using th [of "''purgeAll''" mappings_ok "\<lambda>k. 0"] by (rule conjunct1)
  have 2: "3 \<notin> set (targets (snd (manageTabs ''professional'' mappings_ok (\<lambda>k. 0) (\<lambda>ts. ts) browser_fresh)))"
    using th [of "''professional''" mappings_ok "\<lambda>k. 0"] by (rule conjunct1)
  have 3: "3 \<notin> set (targets (snd (manageTabs ''purgeAll'' mappings_ok (\<lambda>k. 0)
                 (\<lambda>ts. [tab_settings, tab_news]) browser_fresh)))"
    using th [of "''purgeAll''" mappings_ok "\<lambda>k. 0" "\<lambda>ts. [tab_settings, tab_news]",
              THEN conjunct2, THEN conjunct1, THEN mp, OF i] .
  have 4: "3 \<notin> set (targets (snd (undoChanges ?b1)))"
    using th [of "''purgeAll''" mappings_ok "\<lambda>k. 0" "\<lambda>ts. ts",
              THEN conjunct2, THEN conjunct2, THEN mp, OF g, THEN spec, of "tabs ?b1"]
    unfolding h .
  from 1 2 3 4 show ?thesis by simp
qed

text \<open>
  C3 as stated fails for undo: a tab recorded while it showed an \<^verbatim>\<open>http\<close> page and showing a
  \<^verbatim>\<open>file\<close> page when undo runs is the target of a restore, which rewrites its title and
  icon.
\<close>

theorem restore_reaches_other_scheme_counterexample:
  "tab_notes \<in> set (tabs browser_navigated) \<and>
   tab_id tab_notes = Some 7 \<and>
   url tab_notes = Some ''file:///home/me/notes.html'' \<and>
   url_scheme ''file:///home/me/notes.html'' = ''file'' \<and>
   distinct_ids (tabs browser_navigated) \<and>
   7 \<in> set (targets (snd (undoChanges browser_navigated))) \<and>
   page_of 7 (tabs browser_navigated) = Some page_plain \<and>
   page_of 7 (tabs (fst (undoChanges browser_navigated))) =
     Some (page_plain\<lparr>doc_title := ''News'',
                      head_links := [icon_link ''shortcut icon'' ''http://news.example/f.png'']\<rparr>)"
  by code_simp

section \<open>Malformed snapshot keys\<close>

lemma parse_digits_none: "\<forall>c \<in> set s. \<not> radix_digit 10 c \<Longrightarrow> parse_digits 10 s = None"
  by (cases s) (simp_all add: parse_digits_def)

lemma parse_unsigned_none:
  assumes "\<forall>c \<in> set s. \<not> radix_digit 10 c"
  shows "parse_unsigned s = None"
proof -
  have z: "radix_digit 10 (CHR ''0'')" by (simp add: radix_digit_def digit_val_def)
  then have "CHR ''0'' \<notin> set s" using assms by blast
  then have "\<not> startsWith s ''0x''" "\<not> startsWith s ''0X''"
    using startsWith_set by fastforce+
  with assms show ?thesis by (simp add: parse_unsigned_def parse_digits_none)
qed

text \<open>A key with no decimal digit in it reads as \<^verbatim>\<open>NaN\<close>.\<close>

lemma parseInt_non_numeric:
  assumes "\<forall>c \<in> set s. \<not> radix_digit 10 c"
  shows "parseInt s = None"
proof (cases "trimStart s")
  case Nil
  show ?thesis unfolding parseInt_def Let_def Nil by simp
next
  case (Cons c cs)
  have "set (trimStart s) \<subseteq> set s" by (rule set_trimStart)
  with Cons assms have "\<forall>x \<in> set (c # cs). \<not> radix_digit 10 x" by auto
  then have "parse_unsigned (c # cs) = None" "parse_unsigned cs = None"
    by (simp_all add: parse_unsigned_none)
  then show ?thesis unfolding parseInt_def Let_def Cons by simp
qed





section \<open>The snapshot and the disguise\<close>




section \<open>Disguise, then undo\<close>

























end
